theory Spec2Isabelle
  imports Main
begin

section \<open>Canvas elements and JavaScript maps\<close>

text \<open>
  A canvas element is a JavaScript object. The synchronization code reads the fields
  \<open>id\<close>, \<open>version\<close>, \<open>isDeleted\<close>, \<open>lastModified\<close> and \<open>modifiedBy\<close>; geometry and
  style are carried along unread and are kept here as \<open>el_type\<close> and \<open>el_data\<close>.
  A field that may be absent (\<open>undefined\<close>) is an \<open>option\<close>. Clock readings
  (\<open>Date.now()\<close>) are natural numbers of milliseconds, versions are integers.
\<close>

record element =
  el_id :: string
  el_version :: "int option"
  el_isDeleted :: bool
  el_lastModified :: "nat option"
  el_modifiedBy :: "string option"
  el_type :: string
  el_data :: "int list"

text \<open>\<open>element.version || 0\<close>: an absent version (and version 0) reads as 0.\<close>

definition version_or0 :: "element \<Rightarrow> int" where
  "version_or0 element = (case el_version element of None \<Rightarrow> 0 | Some v \<Rightarrow> v)"

text \<open>\<open>x || 0\<close> on an optional clock reading.\<close>

definition time_or0 :: "nat option \<Rightarrow> nat" where
  "time_or0 t = (case t of None \<Rightarrow> 0 | Some v \<Rightarrow> v)"

text \<open>The object literal \<open>{ id }\<close>: every other field is absent.\<close>

definition id_only :: "string \<Rightarrow> element" where
  "id_only i = \<lparr>el_id = i, el_version = None, el_isDeleted = False, el_lastModified = None,
     el_modifiedBy = None, el_type = [], el_data = []\<rparr>"

text \<open>
  A JavaScript \<open>Map\<close> keeps its entries in insertion order: \<open>set\<close> on a key that is present
  replaces the value in place, \<open>set\<close> on a new key appends, \<open>delete\<close> removes the entry.
  It is modelled as an association list.
\<close>

type_synonym ('k, 'v) jsmap = "('k \<times> 'v) list"

fun js_set :: "'k \<Rightarrow> 'v \<Rightarrow> ('k, 'v) jsmap \<Rightarrow> ('k, 'v) jsmap" where
  "js_set k v [] = [(k, v)]"
| "js_set k v (e # m) = (if fst e = k then (k, v) # m else e # js_set k v m)"

definition js_get :: "('k, 'v) jsmap \<Rightarrow> 'k \<Rightarrow> 'v option" where
  "js_get m k = map_of m k"

definition js_has :: "('k, 'v) jsmap \<Rightarrow> 'k \<Rightarrow> bool" where
  "js_has m k = (k \<in> set (map fst m))"

definition js_delete :: "'k \<Rightarrow> ('k, 'v) jsmap \<Rightarrow> ('k, 'v) jsmap" where
  "js_delete k m = filter (\<lambda>e. fst e \<noteq> k) m"

definition js_values :: "('k, 'v) jsmap \<Rightarrow> 'v list" where
  "js_values m = map snd m"

definition js_keys :: "('k, 'v) jsmap \<Rightarrow> 'k list" where
  "js_keys m = map fst m"

text \<open>A map whose every entry is stored under the key \<open>f\<close> computes from its value
  (an element under its id).\<close>

definition keyed :: "('v \<Rightarrow> 'k) \<Rightarrow> ('k, 'v) jsmap \<Rightarrow> bool" where
  "keyed f m = (\<forall>e\<in>set m. fst e = f (snd e))"

text \<open>\<open>new Map(elements.map(el => [el.id, el]))\<close> and the loops that fill a map by id.\<close>

definition map_by_id :: "element list \<Rightarrow> (string, element) jsmap" where
  "map_by_id elements = fold (\<lambda>el m. js_set (el_id el) el m) elements []"

text \<open>
  \<open>Array.prototype.findIndex\<close> (\<open>-1\<close> when no element satisfies the predicate),
  \<open>indexOf\<close>, and \<open>filter\<close> with the three-argument callback \<open>(el, index, arr)\<close>.
\<close>

fun findIndex :: "('a \<Rightarrow> bool) \<Rightarrow> 'a list \<Rightarrow> int" where
  "findIndex P [] = - 1"
| "findIndex P (x # xs) =
     (if P x then 0 else (let r = findIndex P xs in if r < 0 then - 1 else r + 1))"

definition indexOf :: "'a list \<Rightarrow> 'a \<Rightarrow> int" where
  "indexOf arr x = findIndex (\<lambda>y. y = x) arr"

definition filter_indexed :: "('a \<Rightarrow> nat \<Rightarrow> 'a list \<Rightarrow> bool) \<Rightarrow> 'a list \<Rightarrow> 'a list" where
  "filter_indexed p arr = map fst (filter (\<lambda>(x, i). p x i arr) (zip arr [0..<length arr]))"

text \<open>
  Rendering of a number inside a template string. An integer below \<open>10^21\<close> prints its
  decimal digits; from \<open>10^21\<close> on a number prints in exponent form: its digits without
  the trailing zeros, a point after the first digit when more follow, then \<open>e+\<close> and the
  decimal exponent. The numbers rendered are integers that a JavaScript number holds
  with exactly these digits.
\<close>

definition digit_char :: "nat \<Rightarrow> char" where
  "digit_char d = (''0123456789'' ! d)"

function show_nat :: "nat \<Rightarrow> string" where
  "show_nat n = (if n < 10 then [digit_char n] else show_nat (n div 10) @ [digit_char (n mod 10)])"
  by pat_completeness auto
termination
  by (relation "measure (\<lambda>n. n)") auto

declare show_nat.simps [simp del]

definition exponent_form :: "string \<Rightarrow> string" where
  "exponent_form ds =
     (case rev (dropWhile (\<lambda>c. c = CHR ''0'') (rev ds)) of
        [] \<Rightarrow> ds
      | d # rest \<Rightarrow>
          (if rest = [] then [d] else d # CHR ''.'' # rest) @ ''e+'' @ show_nat (length ds - 1))"

definition show_number :: "nat \<Rightarrow> string" where
  "show_number n = (let ds = show_nat n in if length ds \<le> 21 then ds else exponent_form ds)"

definition show_int :: "int \<Rightarrow> string" where
  "show_int i = (if i < 0 then CHR ''-'' # show_number (nat (- i)) else show_number (nat i))"

datatype js_error = TypeError | ReferenceError


section \<open>useCanvasTools: the local tool state\<close>

record tool_state =
  selectedTool :: string
  toolOptions :: "(string \<times> string) list"
  lastToolChange :: nat


section \<open>useCanvasSync: the sync queue\<close>

record change =
  ch_id :: string
  ch_elementId :: string
  ch_type :: string
  ch_element :: element
  ch_timestamp :: nat

record sync_payload =
  sp_changed :: "element list"
  sp_removed :: "string list"
  sp_timestamp :: nat
  sp_userId :: string
  sp_noteId :: string

text \<open>The arguments of the hook. \<open>hasOnSync\<close> and \<open>hasBroadcastChannel\<close> say whether the
  optional callback and channel were passed.\<close>

record sync_config =
  cfg_noteId :: string
  cfg_userId :: string
  hasBroadcastChannel :: bool
  hasOnSync :: bool
  debounceMs :: nat
  maxBatchSize :: nat

text \<open>
  The refs of the hook. \<open>syncTimeout\<close> is the armed debounce timer (its delay), \<open>None\<close>
  when no timer is armed. \<open>processSyncQueue\<close> is an \<open>async\<close> function: \<open>inFlight\<close> holds
  what its suspended continuation closes over (\<open>syncPayload\<close> and \<open>changes\<close>) while it
  awaits the callback and the broadcast. \<open>retryTimers\<close> are the timers armed by the
  \<open>catch\<close> block, each with its delay and the batch it will re-queue.
\<close>

record sync_state =
  syncQueue :: "change list"
  pendingChanges :: "(string, change) jsmap"
  syncInProgress :: bool
  syncTimeout :: "nat option"
  lastSync :: nat
  inFlight :: "(sync_payload \<times> change list) option"
  retryTimers :: "(nat \<times> change list) list"

text \<open>\<open>`${element.id}-${element.version || 0}-${Date.now()}`\<close>\<close>

definition generateChangeId :: "element \<Rightarrow> nat \<Rightarrow> string" where
  "generateChangeId element now =
     el_id element @ ''-'' @ show_int (version_or0 element) @ ''-'' @ show_number now"

definition scheduleSync :: "sync_config \<Rightarrow> sync_state \<Rightarrow> sync_state" where
  "scheduleSync cfg st = st\<lparr>syncTimeout := Some (debounceMs cfg)\<rparr>"

text \<open>
  \<open>processSyncQueue\<close> up to its first \<open>await\<close>. The guard returns at once; a batch with
  nothing to send returns after clearing the queue (its changes stay in the pending map);
  otherwise the payload is built, the batch is deleted from the pending map and the
  function suspends with the payload in flight. With neither a callback nor a channel
  there is nothing to await and the flush completes at once.
\<close>

definition processSyncQueue_start :: "sync_config \<Rightarrow> nat \<Rightarrow> sync_state \<Rightarrow> sync_state" where
  "processSyncQueue_start cfg now st =
     (if syncInProgress st \<or> length (syncQueue st) = 0 then st
      else
        let changes = syncQueue st;
            st1 = st\<lparr>syncInProgress := True, syncQueue := []\<rparr>;
            changed = filter_indexed
                        (\<lambda>el index arr. findIndex (\<lambda>e. el_id e = el_id el) arr = int index)
                        (map ch_element (filter (\<lambda>c. ch_type c = ''update'') changes));
            removed = filter_indexed
                        (\<lambda>i index arr. indexOf arr i = int index)
                        (map (\<lambda>c. el_id (ch_element c)) (filter (\<lambda>c. ch_type c = ''remove'') changes))
        in if length changed = 0 \<and> length removed = 0 then st1\<lparr>syncInProgress := False\<rparr>
           else
             let syncPayload = \<lparr>sp_changed = changed, sp_removed = removed, sp_timestamp = now,
                                 sp_userId = cfg_userId cfg, sp_noteId = cfg_noteId cfg\<rparr>;
                 st2 = st1\<lparr>pendingChanges :=
                             fold (\<lambda>change m. js_delete (ch_id change) m) changes (pendingChanges st1)\<rparr>
             in if \<not> hasOnSync cfg \<and> \<not> hasBroadcastChannel cfg
                then st2\<lparr>lastSync := now, syncInProgress := False\<rparr>
                else st2\<lparr>inFlight := Some (syncPayload, changes)\<rparr>)"

text \<open>
  The continuation of \<open>processSyncQueue\<close>. \<open>onSync_ok\<close> and \<open>send_ok\<close> say whether the
  awaited callback and broadcast resolved (rather than threw). On success \<open>lastSync\<close> is
  set; on failure the \<open>catch\<close> block computes
  \<open>Math.min(1000, Math.pow(2, syncQueueRef.current.length) * 100)\<close> and arms a timer
  that will re-queue the batch. \<open>finally\<close> clears \<open>syncInProgress\<close>.
\<close>

definition processSyncQueue_finish ::
    "sync_config \<Rightarrow> bool \<Rightarrow> bool \<Rightarrow> nat \<Rightarrow> sync_state \<Rightarrow> sync_state" where
  "processSyncQueue_finish cfg onSync_ok send_ok now st =
     (case inFlight st of
        None \<Rightarrow> st
      | Some (syncPayload, changes) \<Rightarrow>
          if (hasOnSync cfg \<and> \<not> onSync_ok) \<or> (hasBroadcastChannel cfg \<and> \<not> send_ok)
          then
            let retryDelay = min 1000 (2 ^ length (syncQueue st) * 100)
            in st\<lparr>retryTimers := retryTimers st @ [(retryDelay, changes)],
                  syncInProgress := False, inFlight := None\<rparr>
          else st\<lparr>lastSync := now, syncInProgress := False, inFlight := None\<rparr>)"

text \<open>A flush that runs to its end with nothing else happening while it awaits.\<close>

definition processSyncQueue ::
    "sync_config \<Rightarrow> bool \<Rightarrow> bool \<Rightarrow> nat \<Rightarrow> sync_state \<Rightarrow> sync_state" where
  "processSyncQueue cfg onSync_ok send_ok now st =
     (if syncInProgress st \<or> length (syncQueue st) = 0 then st
      else processSyncQueue_finish cfg onSync_ok send_ok now (processSyncQueue_start cfg now st))"

text \<open>The payload handed to the callback and the channel by the flush in flight.\<close>

definition flushedPayload :: "sync_state \<Rightarrow> sync_payload option" where
  "flushedPayload st = map_option fst (inFlight st)"

text \<open>The body of the retry timer armed by the \<open>catch\<close> block.\<close>

definition requeueChange :: "change \<Rightarrow> sync_state \<Rightarrow> sync_state" where
  "requeueChange change st =
     (if \<not> js_has (pendingChanges st) (ch_id change)
      then st\<lparr>syncQueue := syncQueue st @ [change],
              pendingChanges := js_set (ch_id change) change (pendingChanges st)\<rparr>
      else st)"

definition requeueFailed :: "sync_config \<Rightarrow> change list \<Rightarrow> sync_state \<Rightarrow> sync_state" where
  "requeueFailed cfg changes st = scheduleSync cfg (fold requeueChange changes st)"

text \<open>
  \<open>queueChange(element, type)\<close> at clock reading \<open>now\<close>: the call reads the clock for
  the change id and again for the change's timestamp, and both readings are taken to be
  \<open>now\<close>. When the queue reaches \<open>maxBatchSize\<close> the flush is started (it is not
  awaited).
\<close>

definition queueChange :: "sync_config \<Rightarrow> element \<Rightarrow> string \<Rightarrow> nat \<Rightarrow> sync_state \<Rightarrow> sync_state" where
  "queueChange cfg element type now st =
     (let changeId = generateChangeId element now
      in if js_has (pendingChanges st) changeId then st
         else
           let change = \<lparr>ch_id = changeId, ch_elementId = el_id element, ch_type = type,
                         ch_element = (if type = ''remove'' then id_only (el_id element) else element),
                         ch_timestamp = now\<rparr>;
               st1 = st\<lparr>pendingChanges := js_set changeId change (pendingChanges st),
                        syncQueue := syncQueue st @ [change]\<rparr>
           in if length (syncQueue st1) \<ge> maxBatchSize cfg
              then processSyncQueue_start cfg now st1
              else scheduleSync cfg st1)"

definition forceSync :: "sync_config \<Rightarrow> nat \<Rightarrow> sync_state \<Rightarrow> sync_state" where
  "forceSync cfg now st = processSyncQueue_start cfg now (st\<lparr>syncTimeout := None\<rparr>)"

definition initial_sync_state :: "nat \<Rightarrow> sync_state" where
  "initial_sync_state now = \<lparr>syncQueue = [], pendingChanges = [], syncInProgress = False,
     syncTimeout = None, lastSync = now, inFlight = None, retryTimers = []\<rparr>"


section \<open>useCanvasState: the canvas state manager\<close>

record canvas_content =
  cc_elements :: "element list"
  cc_files :: "(string \<times> string) list"
  cc_version :: nat

text \<open>The element map stores \<open>{...element, _version: element.version || 0}\<close>: the element
  with its recorded version.\<close>

record canvas_state =
  canvasContent :: canvas_content
  contentVersion :: nat
  elementMap :: "(string, element \<times> int) jsmap"
  sync :: sync_state
  tools :: tool_state

record change_set =
  cs_updated :: "element list"
  cs_removed :: "string list"
  cs_added :: "element list"

record external_update =
  up_changed :: "element list option"
  up_removed :: "string list option"

definition initializeElementMap :: "element list \<Rightarrow> (string, element \<times> int) jsmap" where
  "initializeElementMap elements =
     fold (\<lambda>element m. js_set (el_id element) (element, version_or0 element) m) elements []"

text \<open>
  \<open>detectChanges\<close> reads the element map and the new elements and builds a fresh
  result. \<open>classifyElement\<close> is the callback of the loop over the new elements,
  \<open>classifyEntry\<close> the callback of the loop over the element map; a removed element is
  reported as \<open>{ id }\<close>, its id alone.
\<close>

definition classifyElement ::
    "(string, element \<times> int) jsmap \<Rightarrow> element \<Rightarrow> change_set \<Rightarrow> change_set" where
  "classifyElement elementMapRef element changes =
     (case js_get elementMapRef (el_id element) of
        None \<Rightarrow> changes\<lparr>cs_added := cs_added changes @ [element]\<rparr>
      | Some existing \<Rightarrow>
          if snd existing \<noteq> version_or0 element
          then changes\<lparr>cs_updated := cs_updated changes @ [element]\<rparr>
          else changes)"

definition classifyEntry ::
    "(string, element) jsmap \<Rightarrow> string \<times> (element \<times> int) \<Rightarrow> change_set \<Rightarrow> change_set" where
  "classifyEntry newElementMap entry changes =
     (if \<not> js_has newElementMap (fst entry)
      then changes\<lparr>cs_removed := cs_removed changes @ [fst entry]\<rparr>
      else changes)"

definition detectChanges :: "(string, element \<times> int) jsmap \<Rightarrow> element list \<Rightarrow> change_set" where
  "detectChanges elementMapRef newElements =
     (let changes0 = \<lparr>cs_updated = [], cs_removed = [], cs_added = []\<rparr>;
          newElementMap = map_by_id newElements;
          changes1 = fold (classifyElement elementMapRef) newElements changes0
      in fold (classifyEntry newElementMap) elementMapRef changes1)"

text \<open>\<open>updateCanvasContent\<close>: the local path, which queues every detected change.\<close>

definition updateCanvasContent ::
    "sync_config \<Rightarrow> element list \<Rightarrow> (string \<times> string) list \<Rightarrow> nat \<Rightarrow> canvas_state
       \<Rightarrow> canvas_state \<times> change_set option" where
  "updateCanvasContent cfg elements files now st =
     (let changes = detectChanges (elementMap st) elements
      in if length (cs_updated changes) = 0 \<and> length (cs_added changes) = 0
            \<and> length (cs_removed changes) = 0
         then (st, None)
         else
           let v = contentVersion st + 1;
               q1 = fold (\<lambda>element s. queueChange cfg element ''update'' now s)
                      (cs_updated changes) (sync st);
               q2 = fold (\<lambda>element s. queueChange cfg element ''update'' now s)
                      (cs_added changes) q1;
               q3 = fold (\<lambda>i s. queueChange cfg (id_only i) ''remove'' now s)
                      (cs_removed changes) q2
           in (st\<lparr>elementMap := initializeElementMap elements,
                  canvasContent := \<lparr>cc_elements = elements, cc_files = files, cc_version = v\<rparr>,
                  contentVersion := v,
                  sync := q3\<rparr>,
               Some changes))"

text \<open>\<open>applyExternalUpdate\<close>: the remote path. \<open>changed\<close> and \<open>removed\<close> default to the
  empty list when the payload lacks them. It returns the new state and
  \<open>{elements, files}\<close>.\<close>

definition applyExternalUpdate ::
    "external_update \<Rightarrow> canvas_state \<Rightarrow> canvas_state \<times> (element list \<times> (string \<times> string) list)" where
  "applyExternalUpdate updatePayload st =
     (let changed = (case up_changed updatePayload of None \<Rightarrow> [] | Some c \<Rightarrow> c);
          removed = (case up_removed updatePayload of None \<Rightarrow> [] | Some r \<Rightarrow> r);
          currentElements = cc_elements (canvasContent st);
          elementMap0 = map_by_id currentElements;
          elementMap1 = fold (\<lambda>i m. js_delete i m) removed elementMap0;
          elementMap2 = fold (\<lambda>element m. js_set (el_id element) element m) changed elementMap1;
          updatedElements = js_values elementMap2;
          v = contentVersion st + 1;
          st' = st\<lparr>canvasContent := (canvasContent st)\<lparr>cc_elements := updatedElements, cc_version := v\<rparr>,
                   contentVersion := v,
                   elementMap := initializeElementMap updatedElements\<rparr>
      in (st', (updatedElements, cc_files (canvasContent st'))))"

text \<open>The element map \<open>applyExternalUpdate\<close> builds from the current elements, the removed
  ids and the changed elements, in that order.\<close>

definition externalElementMap ::
    "element list \<Rightarrow> string list \<Rightarrow> element list \<Rightarrow> (string, element) jsmap" where
  "externalElementMap currentElements removed changed =
     fold (\<lambda>element m. js_set (el_id element) element m) changed
       (fold (\<lambda>i m. js_delete i m) removed (map_by_id currentElements))"


section \<open>useBoxEventPropagator: incoming events and conflict resolution\<close>

text \<open>
  An element event on the wire: \<open>{elementId, changeType, boxProperties, timestamp,
  userId, noteId}\<close>. \<open>boxProperties\<close> is an object of element fields.
\<close>

record sync_event =
  ev_elementId :: string
  ev_changeType :: string
  ev_boxProperties :: element
  ev_timestamp :: "nat option"
  ev_userId :: string
  ev_noteId :: string

text \<open>\<open>resolveConflicts\<close> returns the remote event, or \<open>null\<close> (\<open>None\<close>) to ignore it.\<close>

definition resolveConflicts :: "bool \<Rightarrow> element \<Rightarrow> sync_event \<Rightarrow> sync_event option" where
  "resolveConflicts enableConflictResolution localElement remoteEvent =
     (if \<not> enableConflictResolution then Some remoteEvent
      else
        let localTime = time_or0 (el_lastModified localElement);
            remoteTime = time_or0 (ev_timestamp remoteEvent)
        in if remoteTime > localTime then Some remoteEvent else None)"

text \<open>
  The callback of \<open>events.filter\<close> in \<open>handleRemoteUpdate\<close>: a delete is kept; any
  other event is kept when no local element has its id, and otherwise when
  \<open>resolveConflicts\<close> returns it.
\<close>

definition keepsRemoteEvent :: "bool \<Rightarrow> element list \<Rightarrow> sync_event \<Rightarrow> bool" where
  "keepsRemoteEvent enableConflictResolution canvasElements event =
     (if ev_changeType event = ''delete'' then True
      else
        case find (\<lambda>el. el_id el = ev_elementId event) canvasElements of
          None \<Rightarrow> True
        | Some localElement \<Rightarrow>
            resolveConflicts enableConflictResolution localElement event \<noteq> None)"

text \<open>
  \<open>handleRemoteUpdate\<close> of the propagator. The result is the list of events handed to
  \<open>onRemoteUpdate\<close>; \<open>None\<close> when the callback is not invoked (it was not passed, or
  no event passed the filter).
\<close>

definition handleRemoteUpdate ::
    "bool \<Rightarrow> bool \<Rightarrow> element list \<Rightarrow> sync_event list \<Rightarrow> sync_event list option" where
  "handleRemoteUpdate hasOnRemoteUpdate enableConflictResolution canvasElements events =
     (if \<not> hasOnRemoteUpdate then None
      else
        let resolvedEvents = filter (keepsRemoteEvent enableConflictResolution canvasElements) events
        in if length resolvedEvents > 0 then Some resolvedEvents else None)"


section \<open>useBoxSync: applying remote events, version conflicts\<close>

text \<open>
  The functions of this hook are modelled as their bodies read. The hook passes its
  \<open>handleRemoteUpdate\<close> to the propagator above the \<open>const\<close> that declares it, so the
  hook raises a ReferenceError when it renders; how the propagator's callback reaches
  \<open>applyRemoteChanges\<close> is therefore not part of the model, and the properties below
  speak of each function on the arguments it is given.
\<close>

text \<open>The element a create or update event stores:
  \<open>{...boxProperties, id: elementId, isDeleted: false,
     lastModified: boxProperties.lastModified || Date.now()}\<close>.\<close>

definition incomingElement :: "nat \<Rightarrow> sync_event \<Rightarrow> element" where
  "incomingElement now event =
     (ev_boxProperties event)
       \<lparr>el_id := ev_elementId event,
        el_isDeleted := False,
        el_lastModified :=
          Some (case el_lastModified (ev_boxProperties event) of
                  None \<Rightarrow> now
                | Some t \<Rightarrow> if t = 0 then now else t)\<rparr>"

text \<open>One iteration of the \<open>forEach\<close> in \<open>applyRemoteChanges\<close>; the \<open>switch\<close> has no
  default case, so any other change type leaves the map alone.\<close>

definition applyRemoteEvent ::
    "nat \<Rightarrow> sync_event \<Rightarrow> (string, element) jsmap \<Rightarrow> (string, element) jsmap" where
  "applyRemoteEvent now event boxMap =
     (if ev_changeType event = ''create'' \<or> ev_changeType event = ''update'' then
        js_set (ev_elementId event) (incomingElement now event) boxMap
      else if ev_changeType event = ''delete'' then
        (case js_get boxMap (ev_elementId event) of
           None \<Rightarrow> boxMap
         | Some existingElement \<Rightarrow>
             js_set (ev_elementId event) (existingElement\<lparr>el_isDeleted := True\<rparr>) boxMap)
      else boxMap)"

text \<open>The element map built by \<open>applyRemoteChanges\<close>; it is local to the call. \<open>now\<close> is
  the clock reading during the call.\<close>

definition remoteElementMap ::
    "element list \<Rightarrow> sync_event list \<Rightarrow> nat \<Rightarrow> (string, element) jsmap" where
  "remoteElementMap currentElements remoteEvents now =
     fold (applyRemoteEvent now) remoteEvents (map_by_id currentElements)"

definition applyRemoteChanges :: "element list \<Rightarrow> sync_event list \<Rightarrow> nat \<Rightarrow> element list" where
  "applyRemoteChanges currentElements remoteEvents now =
     filter (\<lambda>el. \<not> el_isDeleted el)
       (js_values (remoteElementMap currentElements remoteEvents now))"

record box_changes =
  bc_created :: "element list"
  bc_updated :: "element list"
  bc_deleted :: "string list"

record conflict =
  cf_type :: string
  cf_boxId :: string
  cf_localVersion :: int
  cf_incomingVersion :: int
  cf_resolution :: string

record resolution =
  rs_boxId :: string
  rs_action :: string
  rs_timestamp :: nat

record box_resolution =
  br_created :: "element list"
  br_updated :: "element list"
  br_deleted :: "string list"
  br_hasConflicts :: bool
  br_conflicts :: "conflict list"
  br_resolutions :: "resolution list"

text \<open>
  The callback of \<open>changes.updated.filter\<close> in \<open>resolveBoxConflicts\<close>, with the two
  arrays it pushes to. The accumulator is (kept boxes, conflicts, resolutions).
\<close>

text \<open>\<open>syncStateRef.current.boxVersions.get(box.id) || 0\<close>\<close>

definition boxLocalVersion :: "(string, int) jsmap \<Rightarrow> element \<Rightarrow> int" where
  "boxLocalVersion boxVersions box =
     (case js_get boxVersions (el_id box) of None \<Rightarrow> 0 | Some v \<Rightarrow> v)"

definition resolveBox ::
    "string \<Rightarrow> (string, int) jsmap \<Rightarrow> nat \<Rightarrow> element
       \<Rightarrow> element list \<times> conflict list \<times> resolution list
       \<Rightarrow> element list \<times> conflict list \<times> resolution list" where
  "resolveBox userId boxVersions now box acc =
     (case acc of (kept, conflicts, resolutions) \<Rightarrow>
        let localVersion = boxLocalVersion boxVersions box;
            incomingVersion = version_or0 box
        in if incomingVersion < localVersion then
             (kept,
              conflicts @ [\<lparr>cf_type = ''version_conflict'', cf_boxId = el_id box,
                             cf_localVersion = localVersion, cf_incomingVersion = incomingVersion,
                             cf_resolution = ''keep_local''\<rparr>],
              resolutions)
           else if incomingVersion = localVersion \<and> el_modifiedBy box \<noteq> Some userId then
             (kept @ [box],
              conflicts @ [\<lparr>cf_type = ''simultaneous_edit'', cf_boxId = el_id box,
                             cf_localVersion = localVersion, cf_incomingVersion = incomingVersion,
                             cf_resolution = ''merge_properties''\<rparr>],
              resolutions @ [\<lparr>rs_boxId = el_id box, rs_action = ''merged_properties'',
                               rs_timestamp = now\<rparr>])
           else (kept @ [box], conflicts, resolutions))"

text \<open>
  \<open>resolveBoxConflicts\<close>. \<open>boxVersions\<close> is \<open>syncStateRef.current.boxVersions\<close>; when the
  field is absent (\<open>None\<close>), calling \<open>.get\<close> on it for the first updated box raises a
  TypeError.
\<close>

definition resolveBoxConflicts ::
    "string \<Rightarrow> (string, int) jsmap option \<Rightarrow> nat \<Rightarrow> box_changes \<Rightarrow> js_error + box_resolution" where
  "resolveBoxConflicts userId boxVersions now changes =
     (case boxVersions of
        None \<Rightarrow>
          if bc_updated changes = []
          then Inr \<lparr>br_created = bc_created changes, br_updated = [], br_deleted = bc_deleted changes,
                    br_hasConflicts = False, br_conflicts = [], br_resolutions = []\<rparr>
          else Inl TypeError
      | Some versions \<Rightarrow>
          (case fold (resolveBox userId versions now) (bc_updated changes) ([], [], []) of
             (resolvedUpdated, conflicts, resolutions) \<Rightarrow>
               Inr \<lparr>br_created = bc_created changes, br_updated = resolvedUpdated,
                     br_deleted = bc_deleted changes,
                     br_hasConflicts = (length conflicts > 0),
                     br_conflicts = conflicts, br_resolutions = resolutions\<rparr>))"

text \<open>
  The \<open>boxVersions\<close> field of the hook's sync state. The object literal that initialises
  \<open>syncStateRef\<close> has the fields \<open>isInitialized\<close>, \<open>lastSyncTime\<close>, \<open>totalSyncs\<close>,
  \<open>failedSyncs\<close>, \<open>localChanges\<close>, \<open>remoteChanges\<close>, \<open>syncInProgress\<close> and
  \<open>pendingBoxChanges\<close>, and no \<open>boxVersions\<close>. Only \<open>resetBoxSync\<close> assigns one (an
  empty map); the hook neither returns nor calls \<open>resetBoxSync\<close>, and no code stores a
  version.
\<close>

definition initialBoxVersions :: "(string, int) jsmap option" where
  "initialBoxVersions = None"


section \<open>useBoxSyncChannel: connection errors and reconnection\<close>

record channel_config =
  heartbeatInterval :: nat
  reconnectInterval :: nat
  maxReconnectAttempts :: nat
  hasOnConnectionChange :: bool

text \<open>\<open>reconnectTimers\<close> lists the delays of the reconnection timers armed so far,
  \<open>notified\<close> the statuses passed to \<open>onConnectionChange\<close>.\<close>

record channel_state =
  isConnected :: bool
  reconnectAttempts :: nat
  connectionStatus :: string
  reconnectTimers :: "nat list"
  notified :: "string list"

text \<open>The last statement of \<open>handleConnectionError\<close>, headed \<open>// Attempt reconnection\<close>.\<close>

definition attemptReconnection :: "channel_config \<Rightarrow> channel_state \<Rightarrow> channel_state" where
  "attemptReconnection cfg st =
     (if reconnectAttempts st < maxReconnectAttempts cfg then
        let st1 = st\<lparr>reconnectAttempts := reconnectAttempts st + 1\<rparr>
        in st1\<lparr>reconnectTimers :=
                 reconnectTimers st1 @ [reconnectInterval cfg * 2 ^ (reconnectAttempts st1 - 1)]\<rparr>
      else st\<lparr>connectionStatus := ''failed''\<rparr>)"

text \<open>
  \<open>handleConnectionError\<close>. After \<open>setConnectionStatus('error')\<close> the function calls
  \<open>setLastSyncError(error.message)\<close>. The hook declares the state setters
  \<open>setConnectionStatus\<close>, \<open>setLatency\<close> and \<open>setActiveConnections\<close> and nothing named
  \<open>setLastSyncError\<close>, and the module imports none: resolving the name raises a
  ReferenceError, and the notification and the reconnection that follow it do not run.
  \<open>declared\<close> lists the names in scope.
\<close>

definition channel_scope :: "string list" where
  "channel_scope = [''setConnectionStatus'', ''setLatency'', ''setActiveConnections'']"

definition handleConnectionError_in ::
    "string list \<Rightarrow> channel_config \<Rightarrow> channel_state \<Rightarrow> channel_state \<times> js_error option" where
  "handleConnectionError_in declared cfg st =
     (let st1 = st\<lparr>isConnected := False\<rparr>;
          st2 = st1\<lparr>connectionStatus := ''error''\<rparr>
      in if ''setLastSyncError'' \<notin> set declared then (st2, Some ReferenceError)
         else
           let st3 = (if hasOnConnectionChange cfg then st2\<lparr>notified := notified st2 @ [''error'']\<rparr>
                      else st2)
           in (attemptReconnection cfg st3, None))"

text \<open>The function in the scope the hook gives it: the state after the call and the
  error it raised, if any.\<close>

definition handleConnectionError ::
    "channel_config \<Rightarrow> channel_state \<Rightarrow> channel_state \<times> js_error option" where
  "handleConnectionError cfg st = handleConnectionError_in channel_scope cfg st"


section \<open>Concrete scenarios\<close>

text \<open>The hook's default arguments, with a sync callback and no broadcast channel.\<close>

definition sample_config :: sync_config where
  "sample_config = \<lparr>cfg_noteId = ''n1'', cfg_userId = ''alice'', hasBroadcastChannel = False,
     hasOnSync = True, debounceMs = 50, maxBatchSize = 100\<rparr>"

text \<open>The rectangle \<open>e1\<close> at a given version (or without one) and with given geometry.\<close>

definition rect :: "int option \<Rightarrow> int list \<Rightarrow> element" where
  "rect v d = \<lparr>el_id = ''e1'', el_version = v, el_isDeleted = False, el_lastModified = Some 10,
     el_modifiedBy = Some ''bob'', el_type = ''rectangle'', el_data = d\<rparr>"

text \<open>A canvas holding \<open>e1\<close> at version 1, with one change queued and the rectangle tool
  selected.\<close>

definition sample_canvas :: canvas_state where
  "sample_canvas =
     \<lparr>canvasContent = \<lparr>cc_elements = [rect (Some 1) [1]], cc_files = [], cc_version = 1\<rparr>,
      contentVersion = 1,
      elementMap = initializeElementMap [rect (Some 1) [1]],
      sync = queueChange sample_config (rect (Some 1) [1]) ''update'' 5 (initial_sync_state 0),
      tools = \<lparr>selectedTool = ''rectangle'', toolOptions = [(''strokeColor'', ''#ff0000'')],
                lastToolChange = 3\<rparr>\<rparr>"

text \<open>Two edits of \<open>e1\<close>, version 1 at clock 5 and version 2 at clock 7, both queued.\<close>

definition two_edits :: sync_state where
  "two_edits = queueChange sample_config (rect (Some 2) [2]) ''update'' 7
                 (queueChange sample_config (rect (Some 1) [1]) ''update'' 5 (initial_sync_state 0))"

text \<open>One queued edit; its flush at clock 60 fails (the sync callback rejects); the retry
  timer re-queues the batch; the next flush, at clock 300, fails again.\<close>

definition one_edit :: sync_state where
  "one_edit = queueChange sample_config (rect (Some 1) [1]) ''update'' 5 (initial_sync_state 0)"

definition failed_once :: sync_state where
  "failed_once = processSyncQueue sample_config False True 60 one_edit"

definition failed_twice :: sync_state where
  "failed_twice =
     processSyncQueue sample_config False True 300
       (requeueFailed sample_config (syncQueue one_edit) failed_once)"

text \<open>A remote batch updating \<open>e1\<close> at versions 2, 3 and 4, all authored by bob.\<close>

definition stale_batch :: box_changes where
  "stale_batch = \<lparr>bc_created = [], bc_updated = [rect (Some 2) [1], rect (Some 3) [2], rect (Some 4) [3]],
     bc_deleted = []\<rparr>"

text \<open>An event on \<open>e1\<close> sent by bob with a given change type, timestamp and box
  properties; the sender puts no \<open>lastModified\<close> into the box properties.\<close>

definition remote_event :: "string \<Rightarrow> nat \<Rightarrow> element \<Rightarrow> sync_event" where
  "remote_event ty t bp = \<lparr>ev_elementId = ''e1'', ev_changeType = ty, ev_boxProperties = bp,
     ev_timestamp = Some t, ev_userId = ''bob'', ev_noteId = ''n1''\<rparr>"

definition sent_box :: "int \<Rightarrow> int list \<Rightarrow> element" where
  "sent_box v d = \<lparr>el_id = [], el_version = Some v, el_isDeleted = False, el_lastModified = None,
     el_modifiedBy = None, el_type = ''rectangle'', el_data = d\<rparr>"

text \<open>A second rectangle, \<open>e2\<close>, held locally.\<close>

definition other_rect :: element where
  "other_rect = \<lparr>el_id = ''e2'', el_version = Some 1, el_isDeleted = False, el_lastModified = Some 10,
     el_modifiedBy = Some ''alice'', el_type = ''rectangle'', el_data = [9]\<rparr>"

text \<open>The element of the repository's test of change detection,
  \<open>{ id: '1', type: 'rectangle', x, y }\<close>: it has no version. The test passes a note
  id and a user id and neither a callback nor a channel; the canvas state is the one the
  hook starts with.\<close>

definition test_config :: sync_config where
  "test_config = \<lparr>cfg_noteId = ''test-note'', cfg_userId = ''test-user'', hasBroadcastChannel = False,
     hasOnSync = False, debounceMs = 50, maxBatchSize = 100\<rparr>"

definition test_rect :: "int \<Rightarrow> int \<Rightarrow> element" where
  "test_rect x y = \<lparr>el_id = ''1'', el_version = None, el_isDeleted = False, el_lastModified = None,
     el_modifiedBy = None, el_type = ''rectangle'', el_data = [x, y]\<rparr>"

definition initial_canvas :: canvas_state where
  "initial_canvas =
     \<lparr>canvasContent = \<lparr>cc_elements = [], cc_files = [], cc_version = 0\<rparr>,
      contentVersion = 0,
      elementMap = [],
      sync = initial_sync_state 0,
      tools = \<lparr>selectedTool = ''selection'', toolOptions = [], lastToolChange = 0\<rparr>\<rparr>"

text \<open>Two remote updates of \<open>e1\<close>, version 1 stamped 20 and version 2 stamped 30, and a
  delete of \<open>e1\<close> stamped 3.\<close>

definition update_v1 :: sync_event where
  "update_v1 = remote_event ''update'' 20 (sent_box 1 [1])"

definition update_v2 :: sync_event where
  "update_v2 = remote_event ''update'' 30 (sent_box 2 [2])"

definition stale_delete :: sync_event where
  "stale_delete = remote_event ''delete'' 3 (sent_box 1 [1])"

text \<open>The channel hook with its default arguments, connected.\<close>

definition sample_channel_config :: channel_config where
  "sample_channel_config = \<lparr>heartbeatInterval = 30000, reconnectInterval = 5000,
     maxReconnectAttempts = 5, hasOnConnectionChange = True\<rparr>"

definition connected_channel :: channel_state where
  "connected_channel = \<lparr>isConnected = True, reconnectAttempts = 0, connectionStatus = ''connected'',
     reconnectTimers = [], notified = [''connected'']\<rparr>"


section \<open>Rendering numbers\<close>

text \<open>Clock readings and versions print in plain decimal; from \<open>10^21\<close> on a number
  prints in exponent form.\<close>

lemma show_number_small:
  "show_number 5 = ''5'' \<and> show_number 1700000000000 = ''1700000000000'' \<and> show_int (- 3) = ''-3''"
  by (simp add: show_number_def show_int_def show_nat.simps digit_char_def Let_def)

lemma show_number_large:
  "show_number 1000000000000000000000 = ''1e+21''
   \<and> show_number 1500000000000000000000 = ''1.5e+21''"
  by (simp add: show_number_def show_nat.simps digit_char_def exponent_form_def Let_def)


section \<open>Properties of JavaScript maps\<close>

lemma map_of_js_set: "map_of (js_set k v m) = (map_of m)(k \<mapsto> v)"
  by (induction m) auto

lemma keys_js_set: "fst ` set (js_set k v m) = insert k (fst ` set m)"
  by (induction m) auto

lemma distinct_js_set: "distinct (map fst m) \<Longrightarrow> distinct (map fst (js_set k v m))"
  by (induction m) (auto simp: keys_js_set)

lemma map_of_js_delete: "map_of (js_delete k m) = (map_of m)(k := None)"
  by (induction m) (auto simp: js_delete_def)

lemma distinct_js_delete: "distinct (map fst m) \<Longrightarrow> distinct (map fst (js_delete k m))"
  by (simp add: js_delete_def distinct_map_filter)


lemma map_add_upd_left: "(m(k \<mapsto> v)) ++ n = m ++ ([k \<mapsto> v] ++ n)"
  by (rule ext) (simp add: map_add_def split: option.splits)

lemma map_of_fold_js_set:
  "map_of (fold (\<lambda>x m. js_set (f x) (g x) m) xs m)
     = map_of m ++ map_of (rev (map (\<lambda>x. (f x, g x)) xs))"
proof (induction xs arbitrary: m)
  case Nil
  then show ?case by simp
next
  case (Cons x xs)
  have "map_of (fold (\<lambda>x m. js_set (f x) (g x) m) (x # xs) m)
          = (map_of m)(f x \<mapsto> g x) ++ map_of (rev (map (\<lambda>x. (f x, g x)) xs))"
    unfolding fold_Cons o_apply Cons.IH map_of_js_set ..
  also have "\<dots> = map_of m ++ ([f x \<mapsto> g x] ++ map_of (rev (map (\<lambda>x. (f x, g x)) xs)))"
    by (rule map_add_upd_left)
  also have "\<dots> = map_of m ++ map_of (rev (map (\<lambda>x. (f x, g x)) (x # xs)))"
    by simp
  finally show ?case .
qed

lemma keys_fold_js_set:
  "fst ` set (fold (\<lambda>x m. js_set (f x) (g x) m) xs m) = fst ` set m \<union> f ` set xs"
proof (induction xs arbitrary: m)
  case Nil
  then show ?case by simp
next
  case (Cons x xs)
  have "fst ` set (fold (\<lambda>x m. js_set (f x) (g x) m) (x # xs) m)
          = fst ` set (js_set (f x) (g x) m) \<union> f ` set xs"
    by (simp add: Cons.IH)
  then show ?case
    by (simp add: keys_js_set)
qed

lemma distinct_fold_js_set:
  "distinct (map fst m) \<Longrightarrow> distinct (map fst (fold (\<lambda>x m. js_set (f x) (g x) m) xs m))"
proof (induction xs arbitrary: m)
  case Nil
  then show ?case by simp
next
  case (Cons x xs)
  from Cons.prems have "distinct (map fst (js_set (f x) (g x) m))"
    by (rule distinct_js_set)
  then show ?case
    using Cons.IH by simp
qed

lemma map_of_fold_js_delete:
  "map_of (fold (\<lambda>k m. js_delete k m) ks m) k' = (if k' \<in> set ks then None else map_of m k')"
  by (induction ks arbitrary: m) (simp_all add: map_of_js_delete)

lemma distinct_fold_js_delete:
  "distinct (map fst m) \<Longrightarrow> distinct (map fst (fold (\<lambda>k m. js_delete k m) ks m))"
proof (induction ks arbitrary: m)
  case Nil
  then show ?case by simp
next
  case (Cons k ks)
  from Cons.prems have "distinct (map fst (js_delete k m))"
    by (rule distinct_js_delete)
  then show ?case
    using Cons.IH by simp
qed

lemma keyed_js_set: "keyed f m \<Longrightarrow> k = f v \<Longrightarrow> keyed f (js_set k v m)"
  unfolding keyed_def by (induction m) auto

lemma keyed_js_delete: "keyed f m \<Longrightarrow> keyed f (js_delete k m)"
  unfolding keyed_def by (simp add: js_delete_def)

lemma keyed_fold_js_set:
  "keyed f m \<Longrightarrow> keyed f (fold (\<lambda>x m. js_set (f x) x m) xs m)"
proof (induction xs arbitrary: m)
  case Nil
  then show ?case by simp
next
  case (Cons x xs)
  from Cons.prems have "keyed f (js_set (f x) x m)"
    by (simp add: keyed_js_set)
  then show ?case
    using Cons.IH by simp
qed

lemma keyed_fold_js_delete:
  "keyed f m \<Longrightarrow> keyed f (fold (\<lambda>k m. js_delete k m) ks m)"
proof (induction ks arbitrary: m)
  case Nil
  then show ?case by simp
next
  case (Cons k ks)
  from Cons.prems have "keyed f (js_delete k m)"
    by (rule keyed_js_delete)
  then show ?case
    using Cons.IH by simp
qed

lemma map_of_rev_distinct: "distinct (map fst xs) \<Longrightarrow> map_of (rev xs) = map_of xs"
proof (induction xs)
  case Nil
  then show ?case by simp
next
  case (Cons x xs)
  then have ih: "map_of (rev xs) = map_of xs" and nin: "fst x \<notin> fst ` set xs"
    by simp_all
  have "map_of xs (fst x) = None"
    using nin by (simp add: map_of_eq_None_iff)
  then show ?case
    by (cases x) (auto simp: ih map_add_def fun_eq_iff split: option.splits)
qed


section \<open>The change detector\<close>

lemma classifyElement_fold:
  "fold (classifyElement m) new acc
   = acc\<lparr>cs_added := cs_added acc @ filter (\<lambda>e. js_get m (el_id e) = None) new,
          cs_updated := cs_updated acc @
             filter (\<lambda>e. case js_get m (el_id e) of None \<Rightarrow> False
                          | Some existing \<Rightarrow> snd existing \<noteq> version_or0 e) new\<rparr>"
proof (induction new arbitrary: acc)
  case Nil
  then show ?case by simp
next
  case (Cons e new)
  have step: "fold (classifyElement m) (e # new) acc = fold (classifyElement m) new (classifyElement m e acc)"
    by simp
  show ?case
    unfolding step Cons.IH
    by (cases "js_get m (el_id e)") (simp_all add: classifyElement_def)
qed

lemma classifyEntry_fold:
  "fold (classifyEntry nm) m acc
   = acc\<lparr>cs_removed := cs_removed acc @ filter (\<lambda>i. \<not> js_has nm i) (map fst m)\<rparr>"
proof (induction m arbitrary: acc)
  case Nil
  then show ?case by simp
next
  case (Cons e m)
  have step: "fold (classifyEntry nm) (e # m) acc = fold (classifyEntry nm) m (classifyEntry nm e acc)"
    by simp
  show ?case
    unfolding step Cons.IH
    by (simp add: classifyEntry_def)
qed

lemma js_has_map_by_id: "js_has (map_by_id new) i \<longleftrightarrow> i \<in> el_id ` set new"
  using keys_fold_js_set [of el_id "\<lambda>x. x" new "[]"] by (simp add: js_has_def map_by_id_def)

text \<open>
  What \<open>detectChanges\<close> computes. An element of the new list is added exactly when its
  id has no entry in the element map; it is updated exactly when its id has an entry
  whose recorded version differs from the element's version, an absent version counting
  as 0; the removed ids are the keys of the element map that no new element carries, in
  map order. No structural comparison is made.
\<close>

lemma detectChanges_classification:
  "cs_added (detectChanges m new) = filter (\<lambda>e. js_get m (el_id e) = None) new
   \<and> cs_updated (detectChanges m new)
       = filter (\<lambda>e. case js_get m (el_id e) of None \<Rightarrow> False
                      | Some existing \<Rightarrow> snd existing \<noteq> version_or0 e) new
   \<and> cs_removed (detectChanges m new) = filter (\<lambda>i. i \<notin> el_id ` set new) (js_keys m)"
  by (simp add: detectChanges_def Let_def classifyElement_fold classifyEntry_fold js_has_map_by_id js_keys_def)

lemma detectChanges_classification_example:
  "cs_added (detectChanges (initializeElementMap [rect (Some 1) [1]]) [rect (Some 2) [1], id_only ''e2'']) = [id_only ''e2'']
   \<and> cs_updated (detectChanges (initializeElementMap [rect (Some 1) [1]]) [rect (Some 2) [1], id_only ''e2'']) = [rect (Some 2) [1]]
   \<and> cs_removed (detectChanges (initializeElementMap [rect (Some 1) [1]]) [id_only ''e2'']) = [''e1'']"
  using detectChanges_classification [of "initializeElementMap [rect (Some 1) [1]]" "[rect (Some 2) [1], id_only ''e2'']"]
        detectChanges_classification [of "initializeElementMap [rect (Some 1) [1]]" "[id_only ''e2'']"]
  by (simp add: initializeElementMap_def rect_def id_only_def js_get_def js_keys_def version_or0_def)

text \<open>An element without a version whose geometry differs from the stored element with
  the same id is not reported as updated: both versions read as 0.\<close>

lemma detectChanges_ignores_structure:
  "el_version (rect None [2]) = None
   \<and> js_get (initializeElementMap [rect None [1]]) (el_id (rect None [2])) = Some (rect None [1], 0)
   \<and> rect None [2] \<noteq> rect None [1]
   \<and> rect None [2] \<notin> set (cs_updated (detectChanges (initializeElementMap [rect None [1]]) [rect None [2]]))"
  by (simp add: detectChanges_def classifyElement_def classifyEntry_def initializeElementMap_def
        map_by_id_def rect_def js_get_def js_has_def version_or0_def)

text \<open>
  Claim C9 at a failing input, the repository's test \<open>should detect element
  modifications\<close>. The canvas is updated with the unversioned rectangle \<open>1\<close> at
  \<open>(100, 100)\<close>, which is detected as added, and then with the same rectangle at
  \<open>(150, 150)\<close>. The second update detects no change and returns \<open>{changed: false}\<close>
  (\<open>None\<close>), leaving the stored position at \<open>(100, 100)\<close>: the recorded version 0
  equals the absent version read as 0. The test expects \<open>changed\<close> to be true.
\<close>

theorem updateCanvasContent_misses_unversioned_modification:
  "snd (updateCanvasContent test_config [test_rect 100 100] [] 5 initial_canvas)
     = Some \<lparr>cs_updated = [], cs_removed = [], cs_added = [test_rect 100 100]\<rparr>
   \<and> test_rect 150 150 \<noteq> test_rect 100 100
   \<and> detectChanges
         (elementMap (fst (updateCanvasContent test_config [test_rect 100 100] [] 5 initial_canvas)))
         [test_rect 150 150]
     = \<lparr>cs_updated = [], cs_removed = [], cs_added = []\<rparr>
   \<and> snd (updateCanvasContent test_config [test_rect 150 150] [] 9
           (fst (updateCanvasContent test_config [test_rect 100 100] [] 5 initial_canvas)))
     = None
   \<and> cc_elements (canvasContent (fst (updateCanvasContent test_config [test_rect 150 150] [] 9
           (fst (updateCanvasContent test_config [test_rect 100 100] [] 5 initial_canvas)))))
     = [test_rect 100 100]"
  by code_simp


section \<open>Applying an external update\<close>

lemma map_of_by_key:
  "map_of (map (\<lambda>x. (f x, g x)) xs) k = map_option g (find (\<lambda>x. f x = k) xs)"
  by (induction xs) auto

lemma map_of_map_by_id:
  "map_of (map_by_id xs) i = find (\<lambda>e. el_id e = i) (rev xs)"
proof -
  have "map_of (map_by_id xs) = map_of (rev (map (\<lambda>e. (el_id e, e)) xs))"
    unfolding map_by_id_def using map_of_fold_js_set [of el_id "\<lambda>e. e" xs "[]"] by simp
  then show ?thesis
    using map_of_by_key [of el_id "\<lambda>e. e" "rev xs" i] by (simp add: rev_map option.map_ident)
qed

lemma keyed_map_by_id: "keyed el_id (map_by_id xs)"
  unfolding map_by_id_def by (rule keyed_fold_js_set) (simp add: keyed_def)

lemma distinct_map_by_id: "distinct (map fst (map_by_id xs))"
  unfolding map_by_id_def by (rule distinct_fold_js_set) simp

lemma keyed_values: "keyed f m \<Longrightarrow> map (\<lambda>e. (f e, g e)) (map snd m) = map (\<lambda>p. (fst p, g (snd p))) m"
  by (induction m) (auto simp: keyed_def)

lemma map_of_map_snd: "map_of (map (\<lambda>p. (fst p, g (snd p))) m) k = map_option g (map_of m k)"
  by (induction m) auto

lemma initializeElementMap_values:
  assumes "keyed el_id m" and "distinct (map fst m)"
  shows "map_of (initializeElementMap (js_values m)) i
           = map_option (\<lambda>e. (e, version_or0 e)) (map_of m i)"
proof -
  let ?g = "\<lambda>e. (e, version_or0 e)"
  have d: "distinct (map fst (map (\<lambda>p. (fst p, ?g (snd p))) m))"
    using assms(2) by (simp add: comp_def)
  have "map_of (initializeElementMap (js_values m))
          = map_of (rev (map (\<lambda>e. (el_id e, ?g e)) (map snd m)))"
    unfolding initializeElementMap_def js_values_def
    using map_of_fold_js_set [of el_id ?g "map snd m" "[]"] by simp
  also have "\<dots> = map_of (rev (map (\<lambda>p. (fst p, ?g (snd p))) m))"
    by (simp only: keyed_values [OF assms(1), of ?g])
  also have "\<dots> = map_of (map (\<lambda>p. (fst p, ?g (snd p))) m)"
    using d by (rule map_of_rev_distinct)
  finally show ?thesis
    using map_of_map_snd [of ?g m i] by simp
qed

lemma externalElementMap_keyed: "keyed el_id (externalElementMap cur removed changed)"
  unfolding externalElementMap_def
  by (intro keyed_fold_js_set keyed_fold_js_delete keyed_map_by_id)

lemma externalElementMap_distinct: "distinct (map fst (externalElementMap cur removed changed))"
  unfolding externalElementMap_def
  by (intro distinct_fold_js_set distinct_fold_js_delete distinct_map_by_id)

lemma externalElementMap_lookup:
  "map_of (externalElementMap cur removed changed) i =
     (case find (\<lambda>e. el_id e = i) (rev changed) of
        Some e \<Rightarrow> Some e
      | None \<Rightarrow> if i \<in> set removed then None else find (\<lambda>e. el_id e = i) (rev cur))"
proof -
  have "map_of (externalElementMap cur removed changed)
          = map_of (fold (\<lambda>i m. js_delete i m) removed (map_by_id cur))
              ++ map_of (rev (map (\<lambda>e. (el_id e, e)) changed))"
    unfolding externalElementMap_def
    using map_of_fold_js_set [of el_id "\<lambda>e. e" changed] by simp
  moreover have "map_of (rev (map (\<lambda>e. (el_id e, e)) changed)) i = find (\<lambda>e. el_id e = i) (rev changed)"
    using map_of_by_key [of el_id "\<lambda>e. e" "rev changed" i] by (simp add: rev_map option.map_ident)
  ultimately show ?thesis
    by (simp add: map_add_def map_of_fold_js_delete map_of_map_by_id split: option.splits)
qed

lemma applyExternalUpdate_state:
  "fst (applyExternalUpdate p st) =
     st\<lparr>canvasContent := (canvasContent st)
            \<lparr>cc_elements := js_values (externalElementMap (cc_elements (canvasContent st))
                 (case up_removed p of None \<Rightarrow> [] | Some r \<Rightarrow> r)
                 (case up_changed p of None \<Rightarrow> [] | Some c \<Rightarrow> c)),
             cc_version := contentVersion st + 1\<rparr>,
        contentVersion := contentVersion st + 1,
        elementMap := initializeElementMap (js_values (externalElementMap (cc_elements (canvasContent st))
                 (case up_removed p of None \<Rightarrow> [] | Some r \<Rightarrow> r)
                 (case up_changed p of None \<Rightarrow> [] | Some c \<Rightarrow> c)))\<rparr>"
  by (simp add: applyExternalUpdate_def Let_def externalElementMap_def)

text \<open>
  Claim C7. For every payload, \<open>applyExternalUpdate\<close> leaves the sync queue state and
  the tool state as they were, and rebuilds the element map: an id carried by a changed
  element maps to the last such element, any other id that is removed has no entry, and
  every other id keeps the current element.
\<close>

theorem applyExternalUpdate_frame:
  "sync (fst (applyExternalUpdate p st)) = sync st
   \<and> tools (fst (applyExternalUpdate p st)) = tools st
   \<and> js_get (elementMap (fst (applyExternalUpdate p st))) i =
       map_option (\<lambda>e. (e, version_or0 e))
         (case find (\<lambda>e. el_id e = i) (rev (case up_changed p of None \<Rightarrow> [] | Some c \<Rightarrow> c)) of
            Some e \<Rightarrow> Some e
          | None \<Rightarrow>
              if i \<in> set (case up_removed p of None \<Rightarrow> [] | Some r \<Rightarrow> r) then None
              else find (\<lambda>e. el_id e = i) (rev (cc_elements (canvasContent st))))"
  unfolding applyExternalUpdate_state js_get_def
  by (simp add: initializeElementMap_values [OF externalElementMap_keyed externalElementMap_distinct]
        externalElementMap_lookup)

theorem applyExternalUpdate_frame_witness:
  "sync (fst (applyExternalUpdate \<lparr>up_changed = Some [rect (Some 2) [7]], up_removed = None\<rparr> sample_canvas))
     = sync sample_canvas
   \<and> syncQueue (sync sample_canvas) \<noteq> []
   \<and> selectedTool (tools (fst (applyExternalUpdate \<lparr>up_changed = Some [rect (Some 2) [7]], up_removed = None\<rparr> sample_canvas)))
     = ''rectangle''
   \<and> js_get (elementMap (fst (applyExternalUpdate \<lparr>up_changed = Some [rect (Some 2) [7]], up_removed = None\<rparr> sample_canvas))) ''e1''
     = Some (rect (Some 2) [7], 2)"
  using applyExternalUpdate_frame [of "\<lparr>up_changed = Some [rect (Some 2) [7]], up_removed = None\<rparr>" sample_canvas "''e1''"]
  by (simp add: sample_canvas_def rect_def version_or0_def queueChange_def Let_def
        initial_sync_state_def js_has_def sample_config_def scheduleSync_def)


section \<open>The sync queue\<close>

lemma js_has_js_set: "js_has (js_set k v m) k"
  by (simp add: js_has_def keys_js_set)

lemma generateChangeId_cong:
  "el_id e2 = el_id e1 \<Longrightarrow> version_or0 e2 = version_or0 e1 \<Longrightarrow> generateChangeId e2 now = generateChangeId e1 now"
  by (simp add: generateChangeId_def)

lemma queueChange_pending:
  assumes "js_has (pendingChanges st) (generateChangeId element now)"
  shows "queueChange cfg element type now st = st"
  using assms by (simp add: queueChange_def)

lemma queueChange_leaves_pending:
  assumes "length (syncQueue st) + 1 < maxBatchSize cfg"
  shows "js_has (pendingChanges (queueChange cfg element type now st)) (generateChangeId element now)"
proof (cases "js_has (pendingChanges st) (generateChangeId element now)")
  case True
  then show ?thesis by (simp add: queueChange_def)
next
  case False
  then show ?thesis
    using assms by (simp add: queueChange_def Let_def scheduleSync_def js_has_js_set)
qed

text \<open>
  Claim C3, as the code has it. The dedup key is built from the element id, the version
  and the clock reading. Queueing an element with the same id and version again at the
  same clock reading, while the first change is pending (the queue has not reached
  \<open>maxBatchSize\<close>), changes nothing: neither the queue, nor the pending map, nor the
  timer.
\<close>

theorem queueChange_same_instant_noop:
  assumes "el_id e2 = el_id e1" and "version_or0 e2 = version_or0 e1"
      and "length (syncQueue st) + 1 < maxBatchSize cfg"
  shows "queueChange cfg e2 type2 now (queueChange cfg e1 type1 now st) = queueChange cfg e1 type1 now st"
proof -
  have "js_has (pendingChanges (queueChange cfg e1 type1 now st)) (generateChangeId e2 now)"
    using queueChange_leaves_pending [OF assms(3)] generateChangeId_cong [OF assms(1,2)] by simp
  then show ?thesis
    by (rule queueChange_pending)
qed

theorem queueChange_same_instant_noop_witness:
  "el_id (rect (Some 1) [2]) = el_id (rect (Some 1) [1])
   \<and> version_or0 (rect (Some 1) [2]) = version_or0 (rect (Some 1) [1])
   \<and> length (syncQueue (initial_sync_state 0)) + 1 < maxBatchSize sample_config
   \<and> queueChange sample_config (rect (Some 1) [2]) ''update'' 5
        (queueChange sample_config (rect (Some 1) [1]) ''update'' 5 (initial_sync_state 0))
      = queueChange sample_config (rect (Some 1) [1]) ''update'' 5 (initial_sync_state 0)"
proof -
  have a: "el_id (rect (Some 1) [2]) = el_id (rect (Some 1) [1])"
    by (simp add: rect_def)
  have b: "version_or0 (rect (Some 1) [2]) = version_or0 (rect (Some 1) [1])"
    by (simp add: rect_def version_or0_def)
  have c: "length (syncQueue (initial_sync_state 0)) + 1 < maxBatchSize sample_config"
    by (simp add: initial_sync_state_def sample_config_def)
  show ?thesis
    using a b c queueChange_same_instant_noop [OF a b c, of "''update''" 5 "''update''"] by simp
qed

theorem queueChange_later_requeue_counterexample:
  "js_has (pendingChanges (queueChange sample_config (rect (Some 1) [1]) ''update'' 5 (initial_sync_state 0)))
      (generateChangeId (rect (Some 1) [1]) 5)
   \<and> map ch_id (syncQueue (queueChange sample_config (rect (Some 1) [1]) ''update'' 5 (initial_sync_state 0)))
       = [''e1-1-5'']
   \<and> map ch_id (syncQueue (queueChange sample_config (rect (Some 1) [1]) ''update'' 7
         (queueChange sample_config (rect (Some 1) [1]) ''update'' 5 (initial_sync_state 0))))
       = [''e1-1-5'', ''e1-1-7'']
   \<and> js_keys (pendingChanges (queueChange sample_config (rect (Some 1) [1]) ''update'' 7
         (queueChange sample_config (rect (Some 1) [1]) ''update'' 5 (initial_sync_state 0))))
       = [''e1-1-5'', ''e1-1-7'']"
  by code_simp

subsection \<open>Flushing\<close>


lemma findIndex_eq_iff:
  "findIndex P xs = int i \<longleftrightarrow> i < length xs \<and> P (xs ! i) \<and> (\<forall>j<i. \<not> P (xs ! j))"
proof (induction xs arbitrary: i)
  case Nil
  then show ?case by simp
next
  case (Cons x xs)
  show ?case
  proof (cases "P x")
    case True
    then show ?thesis
      by (cases i) auto
  next
    case False
    show ?thesis
    proof (cases i)
      case 0
      then show ?thesis
        using False by (auto simp: Let_def)
    next
      case (Suc k)
      have "findIndex P (x # xs) = int (Suc k) \<longleftrightarrow> findIndex P xs = int k"
        using False by (auto simp: Let_def)
      also have "\<dots> \<longleftrightarrow> k < length xs \<and> P (xs ! k) \<and> (\<forall>j<k. \<not> P (xs ! j))"
        by (rule Cons.IH)
      also have "\<dots> \<longleftrightarrow> Suc k < length (x # xs) \<and> P ((x # xs) ! Suc k) \<and> (\<forall>j<Suc k. \<not> P ((x # xs) ! j))"
        using False by (auto simp: less_Suc_eq_0_disj)
      finally show ?thesis
        using Suc by simp
    qed
  qed
qed

lemma in_zip_index: "(x, i) \<in> set (zip xs [0..<length xs]) \<longleftrightarrow> i < length xs \<and> xs ! i = x"
  by (auto simp: in_set_zip)

lemma set_filter_indexed:
  "x \<in> set (filter_indexed p xs) \<longleftrightarrow> (\<exists>i<length xs. xs ! i = x \<and> p x i xs)"
proof -
  have "x \<in> set (filter_indexed p xs) \<longleftrightarrow> (\<exists>i. (x, i) \<in> set (zip xs [0..<length xs]) \<and> p x i xs)"
    unfolding filter_indexed_def by force
  then show ?thesis
    unfolding in_zip_index by auto
qed

lemma keep_first_iff:
  "x \<in> set (filter_indexed (\<lambda>el index arr. findIndex (\<lambda>e. f e = f el) arr = int index) xs)
     \<longleftrightarrow> find (\<lambda>e. f e = f x) xs = Some x"
  unfolding set_filter_indexed findIndex_eq_iff find_Some_iff by auto


lemma flushed_changed_iff:
  assumes "flushedPayload (processSyncQueue_start cfg now st) = Some payload"
      and "inFlight st = None"
  shows "el \<in> set (sp_changed payload) \<longleftrightarrow>
           find (\<lambda>e. el_id e = el_id el)
             (map ch_element (filter (\<lambda>c. ch_type c = ''update'') (syncQueue st))) = Some el"
proof -
  have "sp_changed payload =
          filter_indexed (\<lambda>el index arr. findIndex (\<lambda>e. el_id e = el_id el) arr = int index)
            (map ch_element (filter (\<lambda>c. ch_type c = ''update'') (syncQueue st)))"
    using assms
    by (auto simp: flushedPayload_def processSyncQueue_start_def Let_def split: if_splits)
  then show ?thesis
    by (simp only: keep_first_iff)
qed

lemma keep_first_distinct:
  "distinct (map f (filter_indexed (\<lambda>el index arr. findIndex (\<lambda>e. f e = f el) arr = int index) xs))"
proof -
  let ?q = "\<lambda>(x, i). findIndex (\<lambda>e. f e = f x) xs = int i"
  let ?ys = "filter ?q (zip xs [0..<length xs])"
  have d: "distinct ?ys"
    by (intro distinct_filter distinct_zipI2) simp
  have inj: "inj_on (\<lambda>p. f (fst p)) (set ?ys)"
  proof (rule inj_onI)
    fix p q
    assume p: "p \<in> set ?ys" and q: "q \<in> set ?ys" and eq: "f (fst p) = f (fst q)"
    obtain x i where pi: "p = (x, i)" by (cases p)
    obtain y j where qj: "q = (y, j)" by (cases q)
    have xi: "i < length xs \<and> xs ! i = x" and fi: "findIndex (\<lambda>e. f e = f x) xs = int i"
      using p unfolding pi by (simp_all add: in_zip_index)
    have yj: "j < length xs \<and> xs ! j = y" and fj: "findIndex (\<lambda>e. f e = f y) xs = int j"
      using q unfolding qj by (simp_all add: in_zip_index)
    have "f x = f y" using eq unfolding pi qj by simp
    then have "int i = int j" using fi fj by simp
    then have "i = j" by simp
    then show "p = q" using xi yj unfolding pi qj by auto
  qed
  have "map f (filter_indexed (\<lambda>el index arr. findIndex (\<lambda>e. f e = f el) arr = int index) xs)
          = map (\<lambda>p. f (fst p)) ?ys"
    by (simp add: filter_indexed_def comp_def)
  then show ?thesis
    using d inj by (simp add: distinct_map)
qed

lemma flushed_changed_distinct:
  assumes "flushedPayload (processSyncQueue_start cfg now st) = Some payload"
      and "inFlight st = None"
  shows "distinct (map el_id (sp_changed payload))"
proof -
  have "sp_changed payload =
          filter_indexed (\<lambda>el index arr. findIndex (\<lambda>e. el_id e = el_id el) arr = int index)
            (map ch_element (filter (\<lambda>c. ch_type c = ''update'') (syncQueue st)))"
    using assms
    by (auto simp: flushedPayload_def processSyncQueue_start_def Let_def split: if_splits)
  then show ?thesis
    by (simp only: keep_first_distinct)
qed

lemma find_eq_mem: "find (\<lambda>e. e = x) xs = Some x \<longleftrightarrow> x \<in> set xs"
  by (induction xs) auto

lemma flushed_removed_distinct:
  assumes "flushedPayload (processSyncQueue_start cfg now st) = Some payload"
      and "inFlight st = None"
  shows "distinct (sp_removed payload)
       \<and> set (sp_removed payload)
           = set (map (\<lambda>c. el_id (ch_element c)) (filter (\<lambda>c. ch_type c = ''remove'') (syncQueue st)))"
proof -
  let ?ids = "map (\<lambda>c. el_id (ch_element c)) (filter (\<lambda>c. ch_type c = ''remove'') (syncQueue st))"
  have r: "sp_removed payload =
          filter_indexed (\<lambda>el index arr. findIndex (\<lambda>e. e = el) arr = int index) ?ids"
    using assms
    by (auto simp: flushedPayload_def processSyncQueue_start_def Let_def indexOf_def
          split: if_splits)
  have d: "distinct (sp_removed payload)"
    unfolding r using keep_first_distinct [of "\<lambda>x. x" ?ids] by simp
  have "x \<in> set (sp_removed payload) \<longleftrightarrow> x \<in> set ?ids" for x
    unfolding r using keep_first_iff [of x "\<lambda>x. x" ?ids] by (simp add: find_eq_mem)
  then have "set (sp_removed payload) = set ?ids"
    by blast
  with d show ?thesis by simp
qed

text \<open>
  Claim C4 at a failing input. Two edits of \<open>e1\<close> are queued, version 1 and then
  version 2. The flush builds a payload whose single entry for \<open>e1\<close> is version 1, the
  first queued, not the latest: \<open>findIndex\<close> keeps the first occurrence of an id
  (\<open>flushed_changed_iff\<close> shows it for every queue). The payload does hold one entry
  per id and the deduplicated removed ids (\<open>flushed_changed_distinct\<close>,
  \<open>flushed_removed_distinct\<close>).
\<close>

theorem flush_sends_first_queued_version:
  "syncQueue two_edits \<noteq> [] \<and> map (\<lambda>c. el_version (ch_element c)) (syncQueue two_edits) = [Some 1, Some 2]
   \<and> flushedPayload (forceSync sample_config 60 two_edits)
       = Some \<lparr>sp_changed = [rect (Some 1) [1]], sp_removed = [], sp_timestamp = 60,
                sp_userId = ''alice'', sp_noteId = ''n1''\<rparr>"
  by code_simp

lemma failed_flush_delay:
  assumes "\<not> syncInProgress st" and "inFlight (processSyncQueue_start cfg now st) \<noteq> None"
      and "inFlight st = None"
      and "(hasOnSync cfg \<and> \<not> onSync_ok) \<or> (hasBroadcastChannel cfg \<and> \<not> send_ok)"
  shows "retryTimers (processSyncQueue cfg onSync_ok send_ok now st) = retryTimers st @ [(100, syncQueue st)]"
  using assms
  by (auto simp: processSyncQueue_def processSyncQueue_start_def processSyncQueue_finish_def Let_def
        split: if_splits)

lemma requeueChange_pending: "js_has (pendingChanges st) k \<Longrightarrow> js_has (pendingChanges (requeueChange c st)) k"
  by (simp add: requeueChange_def js_has_def keys_js_set)


lemma fold_requeue_pending:
  "js_has (pendingChanges st) k \<Longrightarrow> js_has (pendingChanges (fold requeueChange cs st)) k"
  by (induction cs arbitrary: st) (simp_all add: requeueChange_pending)

lemma requeueFailed_all_pending:
  "c \<in> set changes \<Longrightarrow> js_has (pendingChanges (requeueFailed cfg changes st)) (ch_id c)"
proof (induction changes arbitrary: st)
  case Nil
  then show ?case by simp
next
  case (Cons a changes)
  have step: "requeueFailed cfg (a # changes) st = requeueFailed cfg changes (requeueChange a st)"
    by (simp add: requeueFailed_def)
  show ?case
  proof (cases "c = a")
    case True
    have "js_has (pendingChanges (requeueChange a st)) (ch_id a)"
      by (simp add: requeueChange_def js_has_js_set)
    then show ?thesis
      unfolding step True requeueFailed_def scheduleSync_def
      by (simp add: fold_requeue_pending)
  next
    case False
    then have "c \<in> set changes" using Cons.prems by simp
    then show ?thesis
      unfolding step by (rule Cons.IH)
  qed
qed

text \<open>
  Claim C5 at a failing input. The flush of one queued change fails, the retry timer
  re-queues it (nothing is dropped), and the next flush fails again. Both retry timers
  are armed with 100 ms: the exponent is the length of the queue at the time of the
  failure, which the flush has just emptied, not a count of failed attempts
  (\<open>failed_flush_delay\<close> shows it for every state).
\<close>

theorem retry_delay_ignores_failures:
  "map fst (retryTimers failed_once) = [100]
   \<and> map ch_id (syncQueue (requeueFailed sample_config (syncQueue one_edit) failed_once)) = [''e1-1-5'']
   \<and> map fst (retryTimers failed_twice) = [100, 100]"
  by code_simp


section \<open>Version conflicts\<close>

lemma resolveBox_kept:
  "fst (fold (resolveBox u vs now) xs acc)
     = fst acc @ filter (\<lambda>b. \<not> version_or0 b < boxLocalVersion vs b) xs"
proof (induction xs arbitrary: acc)
  case Nil
  then show ?case by simp
next
  case (Cons x xs)
  have step: "fold (resolveBox u vs now) (x # xs) acc = fold (resolveBox u vs now) xs (resolveBox u vs now x acc)"
    by simp
  show ?case
    unfolding step Cons.IH
    by (cases acc) (simp add: resolveBox_def Let_def)
qed

lemma resolveBox_conflicts_step:
  "set (fst (snd acc)) \<subseteq> set (fst (snd (resolveBox u vs now x acc)))"
  by (cases acc) (auto simp: resolveBox_def Let_def)

lemma resolveBox_conflicts_mono:
  "set (fst (snd acc)) \<subseteq> set (fst (snd (fold (resolveBox u vs now) xs acc)))"
proof (induction xs arbitrary: acc)
  case Nil
  then show ?case by simp
next
  case (Cons x xs)
  have "set (fst (snd acc)) \<subseteq> set (fst (snd (resolveBox u vs now x acc)))"
    by (rule resolveBox_conflicts_step)
  also have "\<dots> \<subseteq> set (fst (snd (fold (resolveBox u vs now) xs (resolveBox u vs now x acc))))"
    by (rule Cons.IH)
  finally show ?case by simp
qed

lemma resolveBox_records:
  assumes "box \<in> set xs"
  shows "(version_or0 box < boxLocalVersion vs box \<longrightarrow>
            \<lparr>cf_type = ''version_conflict'', cf_boxId = el_id box,
              cf_localVersion = boxLocalVersion vs box, cf_incomingVersion = version_or0 box,
              cf_resolution = ''keep_local''\<rparr>
            \<in> set (fst (snd (fold (resolveBox u vs now) xs acc))))
       \<and> (version_or0 box = boxLocalVersion vs box \<and> el_modifiedBy box \<noteq> Some u \<longrightarrow>
            \<lparr>cf_type = ''simultaneous_edit'', cf_boxId = el_id box,
              cf_localVersion = boxLocalVersion vs box, cf_incomingVersion = version_or0 box,
              cf_resolution = ''merge_properties''\<rparr>
            \<in> set (fst (snd (fold (resolveBox u vs now) xs acc))))"
  using assms
proof (induction xs arbitrary: acc)
  case Nil
  then show ?case by simp
next
  case (Cons x xs)
  show ?case
  proof (cases "box = x")
    case True
    have here: "(version_or0 box < boxLocalVersion vs box \<longrightarrow>
            \<lparr>cf_type = ''version_conflict'', cf_boxId = el_id box,
              cf_localVersion = boxLocalVersion vs box, cf_incomingVersion = version_or0 box,
              cf_resolution = ''keep_local''\<rparr>
            \<in> set (fst (snd (resolveBox u vs now x acc))))
       \<and> (version_or0 box = boxLocalVersion vs box \<and> el_modifiedBy box \<noteq> Some u \<longrightarrow>
            \<lparr>cf_type = ''simultaneous_edit'', cf_boxId = el_id box,
              cf_localVersion = boxLocalVersion vs box, cf_incomingVersion = version_or0 box,
              cf_resolution = ''merge_properties''\<rparr>
            \<in> set (fst (snd (resolveBox u vs now x acc))))"
      unfolding True by (cases acc) (simp add: resolveBox_def Let_def)
    show ?thesis
      using here resolveBox_conflicts_mono [of "resolveBox u vs now x acc" u vs now xs]
      by auto
  next
    case False
    then have "box \<in> set xs" using Cons.prems by simp
    then show ?thesis
      using Cons.IH [of "resolveBox u vs now x acc"] by simp
  qed
qed

lemma resolveBoxConflicts_Some:
  "resolveBoxConflicts u (Some vs) now changes =
     Inr \<lparr>br_created = bc_created changes,
          br_updated = fst (fold (resolveBox u vs now) (bc_updated changes) ([], [], [])),
          br_deleted = bc_deleted changes,
          br_hasConflicts = (length (fst (snd (fold (resolveBox u vs now) (bc_updated changes) ([], [], [])))) > 0),
          br_conflicts = fst (snd (fold (resolveBox u vs now) (bc_updated changes) ([], [], []))),
          br_resolutions = snd (snd (fold (resolveBox u vs now) (bc_updated changes) ([], [], [])))\<rparr>"
  by (simp add: resolveBoxConflicts_def split: prod.splits)

text \<open>
  What \<open>resolveBoxConflicts\<close> computes when a version map is present. It keeps exactly
  the updated boxes whose incoming version is not below the local one, as they came in.
  For each updated box: an incoming version below the local version drops the box and
  records a \<open>version_conflict\<close> entry resolved as \<open>keep_local\<close>; an equal version from
  an author other than the local user keeps the box and records a \<open>simultaneous_edit\<close>
  entry; a higher version keeps the box.
\<close>

lemma resolveBoxConflicts_with_versions:
  assumes "box \<in> set (bc_updated changes)"
  shows "\<exists>r. resolveBoxConflicts userId (Some versions) now changes = Inr r
     \<and> br_updated r = filter (\<lambda>b. \<not> version_or0 b < boxLocalVersion versions b) (bc_updated changes)
     \<and> (version_or0 box < boxLocalVersion versions box \<longrightarrow>
          box \<notin> set (br_updated r)
          \<and> \<lparr>cf_type = ''version_conflict'', cf_boxId = el_id box,
              cf_localVersion = boxLocalVersion versions box, cf_incomingVersion = version_or0 box,
              cf_resolution = ''keep_local''\<rparr> \<in> set (br_conflicts r))
     \<and> (version_or0 box = boxLocalVersion versions box \<and> el_modifiedBy box \<noteq> Some userId \<longrightarrow>
          box \<in> set (br_updated r)
          \<and> \<lparr>cf_type = ''simultaneous_edit'', cf_boxId = el_id box,
              cf_localVersion = boxLocalVersion versions box, cf_incomingVersion = version_or0 box,
              cf_resolution = ''merge_properties''\<rparr> \<in> set (br_conflicts r))
     \<and> (version_or0 box > boxLocalVersion versions box \<longrightarrow> box \<in> set (br_updated r))"
  using assms resolveBox_records [OF assms, of versions userId now "([], [], [])"]
  by (simp add: resolveBoxConflicts_Some resolveBox_kept)

text \<open>
  Claim C1 at a failing input. The hook's sync state has no version map, so
  \<open>resolveBoxConflicts\<close> raises a TypeError on every batch that updates a box, before
  any version is compared: no update is rejected or applied and no conflict entry is
  recorded. Only a batch without updated boxes returns, with no conflicts. The failing
  batch updates \<open>e1\<close> at versions 2, 3 and 4.
\<close>

theorem resolveBoxConflicts_raises_without_versions:
  "resolveBoxConflicts userId initialBoxVersions now changes
     = (if bc_updated changes = []
        then Inr \<lparr>br_created = bc_created changes, br_updated = [], br_deleted = bc_deleted changes,
                  br_hasConflicts = False, br_conflicts = [], br_resolutions = []\<rparr>
        else Inl TypeError)
   \<and> resolveBoxConflicts ''alice'' initialBoxVersions 100 stale_batch = Inl TypeError"
  by (simp add: resolveBoxConflicts_def initialBoxVersions_def stale_batch_def)


section \<open>Applying remote events\<close>

lemma el_id_incomingElement: "el_id (incomingElement now ev) = ev_elementId ev"
  by (simp add: incomingElement_def)

lemma not_deleted_incomingElement: "\<not> el_isDeleted (incomingElement now ev)"
  by (simp add: incomingElement_def)

lemma keyed_lookup: "keyed f m \<Longrightarrow> map_of m k = Some v \<Longrightarrow> f v = k"
proof -
  assume k: "keyed f m" and l: "map_of m k = Some v"
  from l have "(k, v) \<in> set m" by (rule map_of_SomeD)
  with k have "fst (k, v) = f (snd (k, v))" unfolding keyed_def by blast
  then show ?thesis by simp
qed

lemma applyRemoteEvent_keyed:
  assumes "keyed el_id m"
  shows "keyed el_id (applyRemoteEvent now ev m)"
proof (cases "ev_changeType ev = ''create'' \<or> ev_changeType ev = ''update''")
  case True
  then show ?thesis
    using assms by (simp add: applyRemoteEvent_def keyed_js_set el_id_incomingElement)
next
  case False
  show ?thesis
  proof (cases "js_get m (ev_elementId ev)")
    case None
    then show ?thesis
      using assms False by (simp add: applyRemoteEvent_def)
  next
    case (Some existing)
    then have "el_id existing = ev_elementId ev"
      using keyed_lookup [OF assms] by (simp add: js_get_def)
    then have "keyed el_id (js_set (ev_elementId ev) (existing\<lparr>el_isDeleted := True\<rparr>) m)"
      using assms by (simp add: keyed_js_set)
    then show ?thesis
      using assms False Some by (simp add: applyRemoteEvent_def)
  qed
qed

lemma applyRemoteEvent_distinct:
  "distinct (map fst m) \<Longrightarrow> distinct (map fst (applyRemoteEvent now ev m))"
  by (simp add: applyRemoteEvent_def distinct_js_set split: option.splits)

lemma fold_applyRemoteEvent_keyed:
  "keyed el_id m \<Longrightarrow> keyed el_id (fold (applyRemoteEvent now) evs m)"
  by (induction evs arbitrary: m) (simp_all add: applyRemoteEvent_keyed)

lemma fold_applyRemoteEvent_distinct:
  "distinct (map fst m) \<Longrightarrow> distinct (map fst (fold (applyRemoteEvent now) evs m))"
  by (induction evs arbitrary: m) (simp_all add: applyRemoteEvent_distinct)

lemma remoteElementMap_keyed: "keyed el_id (remoteElementMap cur evs now)"
  unfolding remoteElementMap_def by (rule fold_applyRemoteEvent_keyed) (rule keyed_map_by_id)

lemma remoteElementMap_distinct: "distinct (map fst (remoteElementMap cur evs now))"
  unfolding remoteElementMap_def by (rule fold_applyRemoteEvent_distinct) (rule distinct_map_by_id)

lemma remoteElementMap_snoc:
  "remoteElementMap cur (evs @ [ev]) now = applyRemoteEvent now ev (remoteElementMap cur evs now)"
  by (simp add: remoteElementMap_def)

lemma applyRemoteEvent_delete:
  assumes "ev_changeType ev = ''delete''"
  shows "js_get (applyRemoteEvent now ev m) (ev_elementId ev)
           = map_option (\<lambda>e. e\<lparr>el_isDeleted := True\<rparr>) (js_get m (ev_elementId ev))"
  using assms
  by (cases "js_get m (ev_elementId ev)") (simp_all add: applyRemoteEvent_def js_get_def map_of_js_set)

lemma applyRemoteEvent_upsert:
  assumes "ev_changeType ev = ''create'' \<or> ev_changeType ev = ''update''"
  shows "map_of (applyRemoteEvent now ev m) = (map_of m)(ev_elementId ev \<mapsto> incomingElement now ev)"
  using assms by (auto simp: applyRemoteEvent_def map_of_js_set)

text \<open>In a map with distinct keys that stores each element under its id, the values with
  a given id are the entry under that id.\<close>

lemma values_with_id:
  assumes "keyed f m" and "distinct (map fst m)"
  shows "filter (\<lambda>v. f v = k) (js_values m) = (case map_of m k of None \<Rightarrow> [] | Some v \<Rightarrow> [v])"
  using assms
proof (induction m)
  case Nil
  then show ?case by (simp add: js_values_def)
next
  case (Cons e m)
  have km: "keyed f m" and dm: "distinct (map fst m)" and fe: "fst e = f (snd e)"
    and nin: "fst e \<notin> fst ` set m"
    using Cons.prems by (simp_all add: keyed_def)
  have ih: "filter (\<lambda>v. f v = k) (js_values m) = (case map_of m k of None \<Rightarrow> [] | Some v \<Rightarrow> [v])"
    using Cons.IH [OF km dm] .
  show ?case
  proof (cases "fst e = k")
    case True
    then have "map_of m k = None"
      using nin by (simp add: map_of_eq_None_iff)
    then show ?thesis
      using True fe ih by (cases e) (simp add: js_values_def)
  next
    case False
    then show ?thesis
      using fe ih by (cases e) (auto simp: js_values_def)
  qed
qed

lemma applyRemoteChanges_with_id:
  "filter (\<lambda>el. el_id el = i) (applyRemoteChanges cur evs now)
     = (case js_get (remoteElementMap cur evs now) i of
          None \<Rightarrow> []
        | Some el \<Rightarrow> if el_isDeleted el then [] else [el])"
proof -
  have "filter (\<lambda>el. el_id el = i) (applyRemoteChanges cur evs now)
          = filter (\<lambda>el. \<not> el_isDeleted el)
              (filter (\<lambda>el. el_id el = i) (js_values (remoteElementMap cur evs now)))"
    unfolding applyRemoteChanges_def by (simp add: conj_commute)
  then show ?thesis
    unfolding values_with_id [OF remoteElementMap_keyed remoteElementMap_distinct] js_get_def
    by (simp split: option.splits)
qed

lemma id_absent_iff: "i \<notin> el_id ` set xs \<longleftrightarrow> filter (\<lambda>el. el_id el = i) xs = []"
  by (auto simp: filter_empty_conv)

subsection \<open>Tombstones\<close>

text \<open>
  Claim C8, as the code has it. \<open>applyRemoteChanges\<close> returns no element whose
  \<open>isDeleted\<close> flag is set. A delete event marks the element in the element map that is
  local to the call, and the element is then left out of the returned list, which is
  all the call hands on: the tombstone is dropped, not retained.
\<close>

theorem applyRemoteChanges_drops_tombstones:
  "(\<forall>el\<in>set (applyRemoteChanges cur evs now). \<not> el_isDeleted el)
   \<and> (ev_changeType ev = ''delete'' \<longrightarrow>
        js_get (remoteElementMap cur (evs @ [ev]) now) (ev_elementId ev)
          = map_option (\<lambda>e. e\<lparr>el_isDeleted := True\<rparr>)
              (js_get (remoteElementMap cur evs now) (ev_elementId ev))
        \<and> ev_elementId ev \<notin> el_id ` set (applyRemoteChanges cur (evs @ [ev]) now))"
proof -
  have a: "\<forall>el\<in>set (applyRemoteChanges cur evs now). \<not> el_isDeleted el"
    by (simp add: applyRemoteChanges_def)
  have b: "js_get (remoteElementMap cur (evs @ [ev]) now) (ev_elementId ev)
          = map_option (\<lambda>e. e\<lparr>el_isDeleted := True\<rparr>)
              (js_get (remoteElementMap cur evs now) (ev_elementId ev))"
    if "ev_changeType ev = ''delete''"
    unfolding remoteElementMap_snoc using that by (rule applyRemoteEvent_delete)
  have c: "ev_elementId ev \<notin> el_id ` set (applyRemoteChanges cur (evs @ [ev]) now)"
    if "ev_changeType ev = ''delete''"
    unfolding id_absent_iff applyRemoteChanges_with_id b [OF that]
    by (simp split: option.splits)
  show ?thesis
    using a b c by blast
qed

theorem applyRemoteChanges_drops_tombstones_witness:
  "map el_isDeleted (applyRemoteChanges [rect (Some 5) [1]] [] 100) = [False]
   \<and> ev_changeType (remote_event ''delete'' 3 (sent_box 1 [1])) = ''delete''
   \<and> js_get (remoteElementMap [rect (Some 5) [1]] [remote_event ''delete'' 3 (sent_box 1 [1])] 100) ''e1''
       = Some ((rect (Some 5) [1])\<lparr>el_isDeleted := True\<rparr>)
   \<and> ''e1'' \<notin> el_id ` set (applyRemoteChanges [rect (Some 5) [1]] [remote_event ''delete'' 3 (sent_box 1 [1])] 100)"
  using applyRemoteChanges_drops_tombstones
          [of "[rect (Some 5) [1]]" "[]" 100 "remote_event ''delete'' 3 (sent_box 1 [1])"]
  by (simp add: remote_event_def remoteElementMap_def applyRemoteChanges_def map_by_id_def
        js_get_def js_values_def rect_def)

text \<open>After a remote delete of \<open>e1\<close> the returned element list is empty, and a stale update
  that arrives later (timestamp 1) finds no element to be resolved against: the
  propagator forwards it and \<open>applyRemoteChanges\<close> brings \<open>e1\<close> back.\<close>

theorem tombstone_not_retained_counterexample:
  "js_get (remoteElementMap [rect (Some 5) [1]] [remote_event ''delete'' 30 (sent_box 1 [1])] 100) ''e1''
     = Some ((rect (Some 5) [1])\<lparr>el_isDeleted := True\<rparr>)
   \<and> applyRemoteChanges [rect (Some 5) [1]] [remote_event ''delete'' 30 (sent_box 1 [1])] 100 = []
   \<and> handleRemoteUpdate True True
        (applyRemoteChanges [rect (Some 5) [1]] [remote_event ''delete'' 30 (sent_box 1 [1])] 100)
        [remote_event ''update'' 1 (sent_box 1 [1])]
      = Some [remote_event ''update'' 1 (sent_box 1 [1])]
   \<and> applyRemoteChanges
        (applyRemoteChanges [rect (Some 5) [1]] [remote_event ''delete'' 30 (sent_box 1 [1])] 100)
        [remote_event ''update'' 1 (sent_box 1 [1])] 200
      = [\<lparr>el_id = ''e1'', el_version = Some 1, el_isDeleted = False, el_lastModified = Some 200,
          el_modifiedBy = None, el_type = ''rectangle'', el_data = [1]\<rparr>]"
  by (simp add: remoteElementMap_def applyRemoteChanges_def applyRemoteEvent_def map_by_id_def
        js_get_def js_values_def rect_def remote_event_def sent_box_def
        handleRemoteUpdate_def keepsRemoteEvent_def incomingElement_def)

subsection \<open>Remote deletes\<close>

lemma js_set_absent: "k \<notin> fst ` set m \<Longrightarrow> js_set k v m = m @ [(k, v)]"
  by (induction m) auto

lemma fold_js_set_fresh:
  assumes "distinct (map f xs)" and "f ` set xs \<inter> fst ` set m = {}"
  shows "fold (\<lambda>x m. js_set (f x) (g x) m) xs m = m @ map (\<lambda>x. (f x, g x)) xs"
  using assms
proof (induction xs arbitrary: m)
  case Nil
  then show ?case by simp
next
  case (Cons x xs)
  have fresh: "f x \<notin> fst ` set m"
    using Cons.prems(2) by auto
  have step: "js_set (f x) (g x) m = m @ [(f x, g x)]"
    using fresh by (rule js_set_absent)
  have d: "distinct (map f xs)" and nx: "f x \<notin> f ` set xs"
    using Cons.prems(1) by simp_all
  have disj: "f ` set xs \<inter> fst ` set (m @ [(f x, g x)]) = {}"
    using Cons.prems(2) nx by auto
  show ?case
    using Cons.IH [OF d disj] by (simp add: step)
qed

lemma map_by_id_distinct: "distinct (map el_id cur) \<Longrightarrow> js_values (map_by_id cur) = cur"
  using fold_js_set_fresh [of el_id cur "[]" "\<lambda>e. e"]
  by (simp add: map_by_id_def js_values_def comp_def)

lemma values_without_key:
  assumes "keyed f m" and "k \<notin> fst ` set m"
  shows "\<forall>v\<in>set (js_values m). f v \<noteq> k"
proof
  fix v
  assume "v \<in> set (js_values m)"
  then obtain e where e: "e \<in> set m" and v: "v = snd e"
    unfolding js_values_def by auto
  have "fst e = f (snd e)"
    using assms(1) e unfolding keyed_def by blast
  moreover have "fst e \<noteq> k"
    using assms(2) e by auto
  ultimately show "f v \<noteq> k"
    unfolding v by simp
qed

lemma filter_absorb: "\<forall>v\<in>set xs. P v \<Longrightarrow> filter P (filter Q xs) = filter Q xs"
  by (induction xs) auto

lemma live_values_js_set_deleted:
  assumes "keyed el_id m" and "distinct (map fst m)" and "el_isDeleted v"
  shows "filter (\<lambda>el. \<not> el_isDeleted el) (js_values (js_set k v m))
           = filter (\<lambda>el. el_id el \<noteq> k) (filter (\<lambda>el. \<not> el_isDeleted el) (js_values m))"
  using assms(1,2)
proof (induction m)
  case Nil
  then show ?case using assms(3) by (simp add: js_values_def)
next
  case (Cons e m)
  have km: "keyed el_id m" and dm: "distinct (map fst m)" and fe: "fst e = el_id (snd e)"
    and nin: "fst e \<notin> fst ` set m"
    using Cons.prems by (simp_all add: keyed_def)
  show ?case
  proof (cases "fst e = k")
    case True
    have "\<forall>v\<in>set (js_values m). el_id v \<noteq> k"
      using km nin unfolding True by (rule values_without_key)
    then have "filter (\<lambda>el. el_id el \<noteq> k) (filter (\<lambda>el. \<not> el_isDeleted el) (js_values m))
                 = filter (\<lambda>el. \<not> el_isDeleted el) (js_values m)"
      by (rule filter_absorb)
    then have "filter (\<lambda>el. el_id el \<noteq> k) (filter (\<lambda>el. \<not> el_isDeleted el) (map snd m))
                 = filter (\<lambda>el. \<not> el_isDeleted el) (map snd m)"
      by (simp only: js_values_def)
    then show ?thesis
      using True fe assms(3) by (cases e) (simp add: js_values_def)
  next
    case False
    then show ?thesis
      using fe Cons.IH [OF km dm] by (cases e) (simp add: js_values_def)
  qed
qed

lemma applyRemoteChanges_snoc_delete:
  assumes "ev_changeType ev = ''delete''"
  shows "applyRemoteChanges cur (pre @ [ev]) now
           = filter (\<lambda>el. el_id el \<noteq> ev_elementId ev) (applyRemoteChanges cur pre now)"
proof -
  let ?m = "remoteElementMap cur pre now"
  have k: "keyed el_id ?m" and d: "distinct (map fst ?m)"
    by (rule remoteElementMap_keyed, rule remoteElementMap_distinct)
  show ?thesis
  proof (cases "js_get ?m (ev_elementId ev)")
    case None
    then have "ev_elementId ev \<notin> fst ` set ?m"
      by (simp add: js_get_def map_of_eq_None_iff)
    then have "\<forall>v\<in>set (js_values ?m). el_id v \<noteq> ev_elementId ev"
      using k by (intro values_without_key)
    then have "filter (\<lambda>el. el_id el \<noteq> ev_elementId ev) (filter (\<lambda>el. \<not> el_isDeleted el) (js_values ?m))
                 = filter (\<lambda>el. \<not> el_isDeleted el) (js_values ?m)"
      by (rule filter_absorb)
    then show ?thesis
      using None assms
      by (simp add: applyRemoteChanges_def remoteElementMap_snoc applyRemoteEvent_def)
  next
    case (Some existing)
    have "filter (\<lambda>el. \<not> el_isDeleted el)
            (js_values (js_set (ev_elementId ev) (existing\<lparr>el_isDeleted := True\<rparr>) ?m))
          = filter (\<lambda>el. el_id el \<noteq> ev_elementId ev) (filter (\<lambda>el. \<not> el_isDeleted el) (js_values ?m))"
      using k d by (rule live_values_js_set_deleted) simp
    then show ?thesis
      using Some assms
      by (simp add: applyRemoteChanges_def remoteElementMap_snoc applyRemoteEvent_def)
  qed
qed

lemma applyRemoteChanges_no_events:
  assumes "distinct (map el_id cur)" and "\<forall>el\<in>set cur. \<not> el_isDeleted el"
  shows "applyRemoteChanges cur [] now = cur"
  using assms
  by (simp add: applyRemoteChanges_def remoteElementMap_def map_by_id_distinct filter_id_conv)

lemma applyRemoteEvent_other_id:
  assumes "ev_elementId x \<noteq> i"
  shows "map_of (applyRemoteEvent now x m) i = map_of m i"
  using assms
  by (auto simp: applyRemoteEvent_def map_of_js_set js_get_def split: option.splits)

text \<open>Once a delete of id \<open>i\<close> has been applied, whatever later events do, the entry
  under \<open>i\<close> is absent, deleted, or the snapshot of a later create or update event.\<close>

lemma entry_after_delete:
  assumes "case map_of m i of None \<Rightarrow> True | Some e \<Rightarrow> el_isDeleted e \<or> e \<in> S"
  shows "case map_of (fold (applyRemoteEvent now) post m) i of
           None \<Rightarrow> True
         | Some e \<Rightarrow> el_isDeleted e
             \<or> e \<in> S \<union> incomingElement now `
                   {x \<in> set post. ev_changeType x = ''create'' \<or> ev_changeType x = ''update''}"
  using assms
proof (induction post arbitrary: m S)
  case Nil
  then show ?case by (simp split: option.splits)
next
  case (Cons x post)
  let ?S' = "S \<union> incomingElement now ` {y \<in> set [x]. ev_changeType y = ''create'' \<or> ev_changeType y = ''update''}"
  have step: "case map_of (applyRemoteEvent now x m) i of
                None \<Rightarrow> True | Some e \<Rightarrow> el_isDeleted e \<or> e \<in> ?S'"
  proof (cases "ev_elementId x = i")
    case False
    then have "map_of (applyRemoteEvent now x m) i = map_of m i"
      by (rule applyRemoteEvent_other_id)
    then show ?thesis
      using Cons.prems by (auto split: option.splits)
  next
    case True
    show ?thesis
    proof (cases "ev_changeType x = ''create'' \<or> ev_changeType x = ''update''")
      case cu: True
      then have "map_of (applyRemoteEvent now x m) i = Some (incomingElement now x)"
        using applyRemoteEvent_upsert [OF cu, of now m] True by simp
      then show ?thesis
        using cu by simp
    next
      case ncu: False
      show ?thesis
      proof (cases "ev_changeType x = ''delete''")
        case del: True
        have "map_of (applyRemoteEvent now x m) i
                = map_option (\<lambda>e. e\<lparr>el_isDeleted := True\<rparr>) (map_of m i)"
          using applyRemoteEvent_delete [OF del, of now m] True by (simp add: js_get_def)
        then show ?thesis
          by (auto split: option.splits)
      next
        case False
        then have "applyRemoteEvent now x m = m"
          using ncu by (simp add: applyRemoteEvent_def)
        then show ?thesis
          using Cons.prems by (auto split: option.splits)
      qed
    qed
  qed
  have sub: "?S' \<union> incomingElement now ` {y \<in> set post. ev_changeType y = ''create'' \<or> ev_changeType y = ''update''}
               \<subseteq> S \<union> incomingElement now ` {y \<in> set (x # post). ev_changeType y = ''create'' \<or> ev_changeType y = ''update''}"
    by auto
  have "case map_of (fold (applyRemoteEvent now) post (applyRemoteEvent now x m)) i of
           None \<Rightarrow> True
         | Some e \<Rightarrow> el_isDeleted e
             \<or> e \<in> ?S' \<union> incomingElement now `
                   {y \<in> set post. ev_changeType y = ''create'' \<or> ev_changeType y = ''update''}"
    using step by (rule Cons.IH)
  then show ?case
    using sub by (auto split: option.splits)
qed

lemma survivors_after_delete:
  assumes "ev_changeType ev = ''delete''"
      and "el \<in> set (applyRemoteChanges cur (pre @ ev # post) now)"
      and "el_id el = ev_elementId ev"
  shows "\<exists>x\<in>set post. (ev_changeType x = ''create'' \<or> ev_changeType x = ''update'')
           \<and> el = incomingElement now x"
proof -
  let ?i = "ev_elementId ev"
  let ?m = "remoteElementMap cur (pre @ [ev]) now"
  have split: "remoteElementMap cur (pre @ ev # post) now = fold (applyRemoteEvent now) post ?m"
    by (simp add: remoteElementMap_def)
  have "js_get ?m ?i = map_option (\<lambda>e. e\<lparr>el_isDeleted := True\<rparr>) (js_get (remoteElementMap cur pre now) ?i)"
    unfolding remoteElementMap_snoc using assms(1) by (rule applyRemoteEvent_delete)
  then have start: "case map_of ?m ?i of None \<Rightarrow> True | Some e \<Rightarrow> el_isDeleted e \<or> e \<in> {}"
    by (auto simp: js_get_def split: option.splits)
  have fin: "case map_of (fold (applyRemoteEvent now) post ?m) ?i of
           None \<Rightarrow> True
         | Some e \<Rightarrow> el_isDeleted e
             \<or> e \<in> {} \<union> incomingElement now `
                   {x \<in> set post. ev_changeType x = ''create'' \<or> ev_changeType x = ''update''}"
    using start by (rule entry_after_delete)
  have "el \<in> set (filter (\<lambda>e. el_id e = ?i) (applyRemoteChanges cur (pre @ ev # post) now))"
    using assms(2,3) by simp
  then have "js_get (remoteElementMap cur (pre @ ev # post) now) ?i = Some el \<and> \<not> el_isDeleted el"
    unfolding applyRemoteChanges_with_id by (auto split: option.splits if_splits)
  then show ?thesis
    using fin unfolding split js_get_def by auto
qed

lemma handleRemoteUpdate_forwards:
  assumes "ev \<in> set evs" and "keepsRemoteEvent enable cur ev"
  shows "handleRemoteUpdate True enable cur evs = Some (filter (keepsRemoteEvent enable cur) evs)"
proof -
  have "ev \<in> set (filter (keepsRemoteEvent enable cur) evs)"
    using assms by simp
  then have "filter (keepsRemoteEvent enable cur) evs \<noteq> []"
    by (cases "filter (keepsRemoteEvent enable cur) evs") simp_all
  then show ?thesis
    by (simp add: handleRemoteUpdate_def)
qed

lemma keeps_delete: "ev_changeType ev = ''delete'' \<Longrightarrow> keepsRemoteEvent enable cur ev"
  by (simp add: keepsRemoteEvent_def)

text \<open>
  Claim C10. A remote event whose change type is \<open>delete\<close> passes the propagator's
  filter whatever the local elements, the conflict-resolution setting and the
  timestamps are, and every batch that contains it is handed to the remote-update
  callback with it. In \<open>applyRemoteChanges\<close> it sets \<open>isDeleted\<close> on the element stored
  under its id, and the call returns what it would return without the delete, less the
  element with that id: applied to the elements a client holds, it removes exactly that
  element, however recent the local edit was, and keeps every other one. In a batch that
  goes on after the delete, an element returned under that id is never the local one:
  it is the snapshot of a create or update event that follows the delete.
\<close>

theorem remote_delete_bypasses_conflict_resolution:
  assumes "ev_changeType ev = ''delete''"
  shows "keepsRemoteEvent enable cur ev
       \<and> (ev \<in> set evs \<longrightarrow>
            handleRemoteUpdate True enable cur evs = Some (filter (keepsRemoteEvent enable cur) evs)
            \<and> ev \<in> set (filter (keepsRemoteEvent enable cur) evs))
       \<and> js_get (remoteElementMap cur (pre @ [ev]) now) (ev_elementId ev)
           = map_option (\<lambda>e. e\<lparr>el_isDeleted := True\<rparr>)
               (js_get (remoteElementMap cur pre now) (ev_elementId ev))
       \<and> applyRemoteChanges cur (pre @ [ev]) now
           = filter (\<lambda>el. el_id el \<noteq> ev_elementId ev) (applyRemoteChanges cur pre now)
       \<and> (distinct (map el_id cur) \<and> (\<forall>el\<in>set cur. \<not> el_isDeleted el) \<longrightarrow>
            applyRemoteChanges cur [ev] now = filter (\<lambda>el. el_id el \<noteq> ev_elementId ev) cur)
       \<and> (\<forall>el\<in>set (applyRemoteChanges cur (pre @ ev # post) now).
            el_id el = ev_elementId ev \<longrightarrow>
              (\<exists>x\<in>set post. (ev_changeType x = ''create'' \<or> ev_changeType x = ''update'')
                 \<and> el = incomingElement now x))"
proof -
  have k: "keepsRemoteEvent enable cur ev"
    using assms by (rule keeps_delete)
  have a: "handleRemoteUpdate True enable cur evs = Some (filter (keepsRemoteEvent enable cur) evs)
            \<and> ev \<in> set (filter (keepsRemoteEvent enable cur) evs)"
    if "ev \<in> set evs"
    using handleRemoteUpdate_forwards [OF that k] that k by simp
  have b: "js_get (remoteElementMap cur (pre @ [ev]) now) (ev_elementId ev)
           = map_option (\<lambda>e. e\<lparr>el_isDeleted := True\<rparr>)
               (js_get (remoteElementMap cur pre now) (ev_elementId ev))"
    unfolding remoteElementMap_snoc using assms by (rule applyRemoteEvent_delete)
  have c: "applyRemoteChanges cur (pre @ [ev]) now
           = filter (\<lambda>el. el_id el \<noteq> ev_elementId ev) (applyRemoteChanges cur pre now)" for pre
    using assms by (rule applyRemoteChanges_snoc_delete)
  have d: "applyRemoteChanges cur [ev] now = filter (\<lambda>el. el_id el \<noteq> ev_elementId ev) cur"
    if "distinct (map el_id cur) \<and> (\<forall>el\<in>set cur. \<not> el_isDeleted el)"
    using c [of "[]"] applyRemoteChanges_no_events [of cur now] that by simp
  have e: "\<exists>x\<in>set post. (ev_changeType x = ''create'' \<or> ev_changeType x = ''update'')
                 \<and> el = incomingElement now x"
    if "el \<in> set (applyRemoteChanges cur (pre @ ev # post) now)" and "el_id el = ev_elementId ev" for el
    using assms that by (rule survivors_after_delete)
  show ?thesis
  proof (intro conjI)
    show "keepsRemoteEvent enable cur ev"
      by (rule k)
    show "ev \<in> set evs \<longrightarrow>
            handleRemoteUpdate True enable cur evs = Some (filter (keepsRemoteEvent enable cur) evs)
            \<and> ev \<in> set (filter (keepsRemoteEvent enable cur) evs)"
      using a by (rule impI)
    show "js_get (remoteElementMap cur (pre @ [ev]) now) (ev_elementId ev)
           = map_option (\<lambda>e. e\<lparr>el_isDeleted := True\<rparr>)
               (js_get (remoteElementMap cur pre now) (ev_elementId ev))"
      by (rule b)
    show "applyRemoteChanges cur (pre @ [ev]) now
           = filter (\<lambda>el. el_id el \<noteq> ev_elementId ev) (applyRemoteChanges cur pre now)"
      by (rule c)
    show "distinct (map el_id cur) \<and> (\<forall>el\<in>set cur. \<not> el_isDeleted el) \<longrightarrow>
            applyRemoteChanges cur [ev] now = filter (\<lambda>el. el_id el \<noteq> ev_elementId ev) cur"
      using d by (rule impI)
    show "\<forall>el\<in>set (applyRemoteChanges cur (pre @ ev # post) now).
            el_id el = ev_elementId ev \<longrightarrow>
              (\<exists>x\<in>set post. (ev_changeType x = ''create'' \<or> ev_changeType x = ''update'')
                 \<and> el = incomingElement now x)"
      using e by (intro ballI impI)
  qed
qed

theorem remote_delete_bypasses_conflict_resolution_witness:
  "ev_changeType stale_delete = ''delete''
   \<and> time_or0 (ev_timestamp stale_delete) < time_or0 (el_lastModified (rect (Some 5) [1]))
   \<and> handleRemoteUpdate True True [rect (Some 5) [1], other_rect] [stale_delete] = Some [stale_delete]
   \<and> js_get (remoteElementMap [rect (Some 5) [1], other_rect] [stale_delete] 100) ''e1''
       = Some ((rect (Some 5) [1])\<lparr>el_isDeleted := True\<rparr>)
   \<and> applyRemoteChanges [rect (Some 5) [1], other_rect] [stale_delete] 100 = [other_rect]"
proof -
  have h: "ev_changeType stale_delete = ''delete''"
    by (simp add: stale_delete_def remote_event_def)
  have i: "ev_elementId stale_delete = ''e1''"
    by (simp add: stale_delete_def remote_event_def)
  have t: "time_or0 (ev_timestamp stale_delete) < time_or0 (el_lastModified (rect (Some 5) [1]))"
    by (simp add: stale_delete_def remote_event_def rect_def time_or0_def)
  have m: "js_get (remoteElementMap [rect (Some 5) [1], other_rect] [] 100) ''e1'' = Some (rect (Some 5) [1])"
    by (simp add: remoteElementMap_def map_by_id_def js_get_def rect_def other_rect_def)
  have cur: "distinct (map el_id [rect (Some 5) [1], other_rect])
             \<and> (\<forall>el\<in>set [rect (Some 5) [1], other_rect]. \<not> el_isDeleted el)"
    by (simp add: rect_def other_rect_def)
  have f: "filter (\<lambda>el. el_id el \<noteq> ''e1'') [rect (Some 5) [1], other_rect] = [other_rect]"
    by (simp add: rect_def other_rect_def)
  note del = remote_delete_bypasses_conflict_resolution
        [OF h, of True "[rect (Some 5) [1], other_rect]" "[stale_delete]" "[]" 100 "[]"]
  have kept: "keepsRemoteEvent True [rect (Some 5) [1], other_rect] stale_delete"
    using del by (rule conjunct1)
  have "stale_delete \<in> set [stale_delete]"
    by simp
  then have "handleRemoteUpdate True True [rect (Some 5) [1], other_rect] [stale_delete]
               = Some (filter (keepsRemoteEvent True [rect (Some 5) [1], other_rect]) [stale_delete])"
    using del [THEN conjunct2, THEN conjunct1] by blast
  then have fwd: "handleRemoteUpdate True True [rect (Some 5) [1], other_rect] [stale_delete] = Some [stale_delete]"
    using kept by simp
  have "js_get (remoteElementMap [rect (Some 5) [1], other_rect] ([] @ [stale_delete]) 100) (ev_elementId stale_delete)
          = map_option (\<lambda>e. e\<lparr>el_isDeleted := True\<rparr>)
              (js_get (remoteElementMap [rect (Some 5) [1], other_rect] [] 100) (ev_elementId stale_delete))"
    using del [THEN conjunct2, THEN conjunct2, THEN conjunct1] .
  then have mark: "js_get (remoteElementMap [rect (Some 5) [1], other_rect] [stale_delete] 100) ''e1''
       = Some ((rect (Some 5) [1])\<lparr>el_isDeleted := True\<rparr>)"
    unfolding i m by simp
  have "applyRemoteChanges [rect (Some 5) [1], other_rect] [stale_delete] 100
          = filter (\<lambda>el. el_id el \<noteq> ev_elementId stale_delete) [rect (Some 5) [1], other_rect]"
    using del [THEN conjunct2, THEN conjunct2, THEN conjunct2, THEN conjunct2, THEN conjunct1] cur
    by (rule mp)
  then have res: "applyRemoteChanges [rect (Some 5) [1], other_rect] [stale_delete] 100 = [other_rect]"
    unfolding i f .
  show ?thesis
    using h t fwd mark res by (intro conjI)
qed

subsection \<open>Arrival order\<close>

lemma fold_upserts:
  assumes "\<forall>ev\<in>set evs. ev_elementId ev = i \<and> (ev_changeType ev = ''create'' \<or> ev_changeType ev = ''update'')"
      and "evs \<noteq> []"
  shows "map_of (fold (applyRemoteEvent now) evs m) i = Some (incomingElement now (last evs))"
  using assms
proof (induction evs arbitrary: m)
  case Nil
  then show ?case by simp
next
  case (Cons ev evs)
  have up: "map_of (applyRemoteEvent now ev m) = (map_of m)(i \<mapsto> incomingElement now ev)"
    using applyRemoteEvent_upsert [of ev now m] Cons.prems(1) by simp
  show ?case
  proof (cases "evs = []")
    case True
    then show ?thesis using up by simp
  next
    case False
    then show ?thesis
      using Cons.IH [of "applyRemoteEvent now ev m"] Cons.prems(1) by simp
  qed
qed

text \<open>What the two functions compute for updates of one element. The propagator keeps an
  update when its timestamp is greater than the \<open>lastModified\<close> of the element held
  before the batch, without comparing the events of the batch with each other, and
  \<open>applyRemoteChanges\<close> ends with the snapshot of the last event it is given.\<close>

lemma keepsRemoteEvent_newer:
  assumes "find (\<lambda>el. el_id el = ev_elementId ev) cur = Some l" and "ev_changeType ev \<noteq> ''delete''"
  shows "keepsRemoteEvent enable cur ev
           \<longleftrightarrow> \<not> enable \<or> time_or0 (el_lastModified l) < time_or0 (ev_timestamp ev)"
  using assms by (simp add: keepsRemoteEvent_def resolveConflicts_def Let_def)

lemma applyRemoteChanges_last_event_wins:
  assumes "\<forall>ev\<in>set evs. ev_elementId ev = i \<and> (ev_changeType ev = ''create'' \<or> ev_changeType ev = ''update'')"
      and "evs \<noteq> []"
  shows "filter (\<lambda>el. el_id el = i) (applyRemoteChanges cur evs now) = [incomingElement now (last evs)]"
proof -
  have "js_get (remoteElementMap cur evs now) i = Some (incomingElement now (last evs))"
    unfolding js_get_def remoteElementMap_def using assms by (rule fold_upserts)
  then show ?thesis
    unfolding applyRemoteChanges_with_id by (simp add: not_deleted_incomingElement)
qed

text \<open>
  Claim C2 at a failing input. A client holds \<open>e1\<close>, last modified at 10, and receives
  two updates of it: version 1 with timestamp 20 and version 2 with timestamp 30. The
  propagator forwards both in either order. When version 2 arrives first, the client
  ends at version 1; when version 1 arrives first, it ends at version 2. Delivered one by
  one with the clock at 100, version 1 is applied and version 2 is then dropped, so the
  client stays at version 1. In two of the three arrival orders the event with the
  highest version and timestamp does not win.
\<close>

theorem arrival_order_decides_final_state:
  "map el_lastModified [rect (Some 0) [0]] = [Some 10]
   \<and> handleRemoteUpdate True True [rect (Some 0) [0]] [update_v2, update_v1] = Some [update_v2, update_v1]
   \<and> map el_version (applyRemoteChanges [rect (Some 0) [0]] [update_v2, update_v1] 100) = [Some 1]
   \<and> handleRemoteUpdate True True [rect (Some 0) [0]] [update_v1, update_v2] = Some [update_v1, update_v2]
   \<and> map el_version (applyRemoteChanges [rect (Some 0) [0]] [update_v1, update_v2] 100) = [Some 2]
   \<and> handleRemoteUpdate True True [rect (Some 0) [0]] [update_v1] = Some [update_v1]
   \<and> map el_version (applyRemoteChanges [rect (Some 0) [0]] [update_v1] 100) = [Some 1]
   \<and> handleRemoteUpdate True True (applyRemoteChanges [rect (Some 0) [0]] [update_v1] 100) [update_v2] = None"
  by (simp add: remoteElementMap_def applyRemoteChanges_def applyRemoteEvent_def map_by_id_def
        js_get_def js_values_def remote_event_def sent_box_def rect_def update_v1_def update_v2_def
        handleRemoteUpdate_def keepsRemoteEvent_def incomingElement_def resolveConflicts_def
        time_or0_def)


section \<open>Reconnection\<close>

lemma attemptReconnection_backoff:
  assumes "reconnectAttempts st = k" and "k < maxReconnectAttempts cfg"
  shows "attemptReconnection cfg st
           = st\<lparr>reconnectAttempts := k + 1,
                reconnectTimers := reconnectTimers st @ [reconnectInterval cfg * 2 ^ k]\<rparr>"
  using assms by (simp add: attemptReconnection_def Let_def)

lemma attemptReconnection_exhausted:
  assumes "maxReconnectAttempts cfg \<le> reconnectAttempts st"
  shows "attemptReconnection cfg st = st\<lparr>connectionStatus := ''failed''\<rparr>"
  using assms by (simp add: attemptReconnection_def)

lemma handleConnectionError_in_scope:
  assumes "''setLastSyncError'' \<in> set declared" and "reconnectAttempts st < maxReconnectAttempts cfg"
  shows "snd (handleConnectionError_in declared cfg st) = None
       \<and> reconnectTimers (fst (handleConnectionError_in declared cfg st))
           = reconnectTimers st @ [reconnectInterval cfg * 2 ^ reconnectAttempts st]
       \<and> reconnectAttempts (fst (handleConnectionError_in declared cfg st)) = reconnectAttempts st + 1"
  using assms by (simp add: handleConnectionError_in_def attemptReconnection_def Let_def)

text \<open>
  Claim C6 at a failing input. Every call of \<open>handleConnectionError\<close> stops with a
  ReferenceError after it has set the status to \<open>error\<close>: the reconnect counter is not
  incremented, no reconnection timer is armed and the status never becomes \<open>failed\<close>.
  The schedule that the statements after the failing call would follow, were the name
  declared, is \<open>attemptReconnection_backoff\<close>, \<open>attemptReconnection_exhausted\<close> and
  \<open>handleConnectionError_in_scope\<close>.
\<close>

theorem handleConnectionError_raises:
  "handleConnectionError cfg st
     = (st\<lparr>isConnected := False, connectionStatus := ''error''\<rparr>, Some ReferenceError)
   \<and> handleConnectionError sample_channel_config connected_channel
     = (\<lparr>isConnected = False, reconnectAttempts = 0, connectionStatus = ''error'',
         reconnectTimers = [], notified = [''connected'']\<rparr>, Some ReferenceError)"
  by (simp add: handleConnectionError_def handleConnectionError_in_def channel_scope_def
        connected_channel_def)

end
